theory Spec2Isabelle
  imports Complex_Main "HOL-Library.Multiset"
begin

section \<open>Latent Spectral Model (run\_lsm.py): shared conventions\<close>

text \<open>
  Tensors of floating-point numbers are modelled twice: over the reals (exact
  arithmetic), and over floating-point values with a rounding function applied to the
  result of every operation, where overflow and underflow matter.
  A Python exception is a value \<open>Inl e\<close> of the sum type \<open>py_error + 'a\<close>. The value
  \<open>Inl NonFinite\<close> is not an exception: in the model over the reals it stands for a
  float result that holds \<open>inf\<close> or \<open>nan\<close> (a division by zero inside a tensor
  operation), which has no counterpart among the reals.
\<close>

datatype py_error =
  ZeroDivisionError | RuntimeError | IndexError | ValueError | AssertionError | NonFinite

definition ebind :: "py_error + 'a \<Rightarrow> ('a \<Rightarrow> py_error + 'b) \<Rightarrow> py_error + 'b" where
  "ebind m f = (case m of Inl e \<Rightarrow> Inl e | Inr v \<Rightarrow> f v)"

fun emap :: "('a \<Rightarrow> py_error + 'b) \<Rightarrow> 'a list \<Rightarrow> py_error + 'b list" where
  "emap f [] = Inr []"
| "emap f (x # xs) = ebind (f x) (\<lambda>y. ebind (emap f xs) (\<lambda>ys. Inr (y # ys)))"

definition py_get :: "'a list \<Rightarrow> nat \<Rightarrow> py_error + 'a" where
  "py_get xs i = (if i < length xs then Inr (xs ! i) else Inl IndexError)"

text \<open>
  Broadcasting of an elementwise operation along one axis: equal extents pair up,
  an extent of 1 is repeated, anything else is a shape error.
\<close>

definition broadcast :: "('a \<Rightarrow> 'b \<Rightarrow> 'c) \<Rightarrow> 'a list \<Rightarrow> 'b list \<Rightarrow> py_error + 'c list" where
  "broadcast f a b =
     (if length a = length b then Inr (map2 f a b)
      else if length b = 1 then Inr (map (\<lambda>u. f u (hd b)) a)
      else if length a = 1 then Inr (map (\<lambda>v. f (hd a) v) b)
      else Inl RuntimeError)"

text \<open>Elementwise tensor division; a zero divisor makes the result non-finite.\<close>

definition tdiv :: "real list \<Rightarrow> real list \<Rightarrow> py_error + real list" where
  "tdiv a b = ebind (broadcast Pair a b)
     (\<lambda>uv. if list_ex (\<lambda>(u, v). v = 0) uv then Inl NonFinite
           else Inr (map (\<lambda>(u, v). u / v) uv))"

section \<open>Tensors with an explicit shape\<close>

text \<open>
  A contiguous tensor: its shape and its elements in row-major order. It is well formed
  when the element count is the product of the extents.
\<close>

record 'a tensor =
  shape :: "nat list"
  elems :: "'a list"

definition wf_tensor :: "'a tensor \<Rightarrow> bool" where
  "wf_tensor t \<longleftrightarrow> length (elems t) = prod_list (shape t)"

text \<open>The \<open>n\<close> consecutive rows of \<open>c\<close> elements each.\<close>

definition rows :: "nat \<Rightarrow> nat \<Rightarrow> 'a list \<Rightarrow> 'a list list" where
  "rows n c xs = map (\<lambda>i. take c (drop (i * c) xs)) [0..<n]"

text \<open>
  \<open>t.reshape(n, -1)\<close>: the inferred extent is the element count divided by \<open>n\<close>; it
  cannot be inferred for \<open>n = 0\<close> and must be a whole number.
\<close>

definition reshape_rows :: "nat \<Rightarrow> 'a tensor \<Rightarrow> py_error + 'a list list" where
  "reshape_rows n t =
     (if n = 0 then Inl RuntimeError
      else if length (elems t) mod n \<noteq> 0 then Inl RuntimeError
      else Inr (rows n (length (elems t) div n) (elems t)))"

text \<open>
  Row-major addressing: the flat position of a multi-index in a tensor of a given shape,
  and the multi-index of a flat position.
\<close>

fun ravel :: "nat list \<Rightarrow> nat list \<Rightarrow> nat" where
  "ravel (d # ds) (i # is) = i * prod_list ds + ravel ds is"
| "ravel _ _ = 0"

fun unravel :: "nat list \<Rightarrow> nat \<Rightarrow> nat list" where
  "unravel [] k = []"
| "unravel (d # ds) k = (k div prod_list ds) # unravel ds (k mod prod_list ds)"

text \<open>
  Broadcasting of two shapes: they are aligned at the last axis, the shorter one is
  filled up with extents of 1, and two extents go together when they are equal or one of
  them is 1, which is then repeated.
\<close>

definition pad_shape :: "nat \<Rightarrow> nat list \<Rightarrow> nat list" where
  "pad_shape n s = replicate (n - length s) 1 @ s"

definition broadcast_shapes :: "nat list \<Rightarrow> nat list \<Rightarrow> py_error + nat list" where
  "broadcast_shapes a b =
     (let n = max (length a) (length b);
          pa = pad_shape n a;
          pb = pad_shape n b
      in if list_all2 (\<lambda>x y. x = y \<or> x = 1 \<or> y = 1) pa pb
         then Inr (map2 (\<lambda>x y. if x = 1 then y else x) pa pb)
         else Inl RuntimeError)"

text \<open>A shape \<open>p\<close> can be expanded to the shape \<open>s\<close> of the same rank.\<close>

definition fits :: "nat list \<Rightarrow> nat list \<Rightarrow> bool" where
  "fits p s \<longleftrightarrow> list_all2 (\<lambda>d D. d = D \<or> d = 1) p s"

text \<open>
  The tensor \<open>t\<close> expanded to the shape \<open>s\<close>: the element at a multi-index of the result
  is the element of \<open>t\<close> at the same multi-index, with 0 along the axes where \<open>t\<close> has
  the extent 1.
\<close>

definition broadcast_to :: "nat list \<Rightarrow> 'a tensor \<Rightarrow> 'a tensor" where
  "broadcast_to s t =
     (let p = pad_shape (length s) (shape t)
      in \<lparr>shape = s,
          elems = map (\<lambda>k. elems t ! ravel p (map2 (\<lambda>d i. if d = 1 then 0 else i) p (unravel s k)))
                    [0..<prod_list s]\<rparr>)"

text \<open>An elementwise operation on one tensor, and on two tensors with broadcasting.\<close>

definition tensor_map :: "('a \<Rightarrow> 'b) \<Rightarrow> 'a tensor \<Rightarrow> 'b tensor" where
  "tensor_map f t = \<lparr>shape = shape t, elems = map f (elems t)\<rparr>"

definition tensor_map2 :: "('a \<Rightarrow> 'b \<Rightarrow> 'c) \<Rightarrow> 'a tensor \<Rightarrow> 'b tensor \<Rightarrow> py_error + 'c tensor" where
  "tensor_map2 f a b =
     ebind (broadcast_shapes (shape a) (shape b)) (\<lambda>s.
       Inr \<lparr>shape = s, elems = map2 f (elems (broadcast_to s a)) (elems (broadcast_to s b))\<rparr>)"

section \<open>Floating-point arithmetic\<close>

text \<open>
  The program computes in IEEE 754 binary floating point (single precision for the
  tensors read by \<open>MatReader\<close>). A floating-point value is a finite real, an infinity or
  \<open>nan\<close>. Signed zeros are not distinguished: a nonzero number divided by zero takes the
  sign of the dividend.
\<close>

datatype fp = Fin real | PInf | NInf | NaN

text \<open>Rounding to the nearest integer, a tie going to the even one.\<close>

definition rne :: "real \<Rightarrow> int" where
  "rne q =
     (let f = \<lfloor>q\<rfloor> in
      if q - of_int f < 1 / 2 then f
      else if 1 / 2 < q - of_int f then f + 1
      else if even f then f else f + 1)"

text \<open>
  Rounding of a real to the format with \<open>prec\<close> significand bits and largest exponent
  \<open>emax\<close>: to the nearest multiple of the unit in the last place of its binade (of the
  lowest binade for a subnormal), and to an infinity when that is beyond the largest
  finite value.
\<close>

definition fp_round :: "nat \<Rightarrow> int \<Rightarrow> real \<Rightarrow> fp" where
  "fp_round prec emax r =
     (if r = 0 then Fin 0
      else let e = max \<lfloor>log 2 \<bar>r\<bar>\<rfloor> (1 - emax);
               ulp = 2 powr of_int (e - int prec + 1);
               v = of_int (rne (r / ulp)) * ulp
           in if 2 powr of_int (emax + 1) \<le> \<bar>v\<bar> then (if 0 < r then PInf else NInf)
              else Fin v)"

definition binary32 :: "real \<Rightarrow> fp" where
  "binary32 = fp_round 24 127"

text \<open>
  The arithmetic operations, for a rounding \<open>rnd\<close> of the exact result of two finite
  operands, with the IEEE results for the infinities and \<open>nan\<close>.
\<close>

fun fp_neg :: "fp \<Rightarrow> fp" where
  "fp_neg (Fin x) = Fin (- x)"
| "fp_neg PInf = NInf"
| "fp_neg NInf = PInf"
| "fp_neg NaN = NaN"

fun fp_add :: "(real \<Rightarrow> fp) \<Rightarrow> fp \<Rightarrow> fp \<Rightarrow> fp" where
  "fp_add rnd (Fin x) (Fin y) = rnd (x + y)"
| "fp_add rnd NaN b = NaN"
| "fp_add rnd a NaN = NaN"
| "fp_add rnd PInf NInf = NaN"
| "fp_add rnd NInf PInf = NaN"
| "fp_add rnd PInf b = PInf"
| "fp_add rnd a PInf = PInf"
| "fp_add rnd NInf b = NInf"
| "fp_add rnd a NInf = NInf"

definition fp_sub :: "(real \<Rightarrow> fp) \<Rightarrow> fp \<Rightarrow> fp \<Rightarrow> fp" where
  "fp_sub rnd a b = fp_add rnd a (fp_neg b)"

fun fp_mul :: "(real \<Rightarrow> fp) \<Rightarrow> fp \<Rightarrow> fp \<Rightarrow> fp" where
  "fp_mul rnd (Fin x) (Fin y) = rnd (x * y)"
| "fp_mul rnd NaN b = NaN"
| "fp_mul rnd a NaN = NaN"
| "fp_mul rnd (Fin x) PInf = (if x = 0 then NaN else if 0 < x then PInf else NInf)"
| "fp_mul rnd (Fin x) NInf = (if x = 0 then NaN else if 0 < x then NInf else PInf)"
| "fp_mul rnd PInf (Fin y) = (if y = 0 then NaN else if 0 < y then PInf else NInf)"
| "fp_mul rnd NInf (Fin y) = (if y = 0 then NaN else if 0 < y then NInf else PInf)"
| "fp_mul rnd PInf PInf = PInf"
| "fp_mul rnd PInf NInf = NInf"
| "fp_mul rnd NInf PInf = NInf"
| "fp_mul rnd NInf NInf = PInf"

fun fp_div :: "(real \<Rightarrow> fp) \<Rightarrow> fp \<Rightarrow> fp \<Rightarrow> fp" where
  "fp_div rnd (Fin x) (Fin y) =
     (if y = 0 then (if x = 0 then NaN else if 0 < x then PInf else NInf) else rnd (x / y))"
| "fp_div rnd NaN b = NaN"
| "fp_div rnd a NaN = NaN"
| "fp_div rnd (Fin x) PInf = Fin 0"
| "fp_div rnd (Fin x) NInf = Fin 0"
| "fp_div rnd PInf (Fin y) = (if y < 0 then NInf else PInf)"
| "fp_div rnd NInf (Fin y) = (if y < 0 then PInf else NInf)"
| "fp_div rnd PInf b = NaN"
| "fp_div rnd NInf b = NaN"

text \<open>\<open>|a| ** p\<close> for an exponent \<open>p > 0\<close>.\<close>

fun fp_abs_pow :: "(real \<Rightarrow> fp) \<Rightarrow> real \<Rightarrow> fp \<Rightarrow> fp" where
  "fp_abs_pow rnd p (Fin x) = rnd (\<bar>x\<bar> powr p)"
| "fp_abs_pow rnd p NaN = NaN"
| "fp_abs_pow rnd p a = PInf"

text \<open>A sum, accumulated from the left.\<close>

definition fp_sum :: "(real \<Rightarrow> fp) \<Rightarrow> fp list \<Rightarrow> fp" where
  "fp_sum rnd xs = foldl (fp_add rnd) (Fin 0) xs"

text \<open>Powers of two: the values that every binary format represents exactly within its range.\<close>

definition pow2 :: "int \<Rightarrow> real" where
  "pow2 n = 2 powr of_int n"

section \<open>NeuralSpectralBlock2d: construction and basis expansion\<close>

record NeuralSpectralBlock2d =
  patch_size :: "int list"
  width :: int
  num_basis :: int
  modes_list :: "real list"
  head :: int
  num_token :: int

text \<open>
  \<open>__init__\<close> (lines 195-213). The learned parameters (\<open>weights\<close>, \<open>latent\<close>, the two 1x1
  convolutions) are random and are not fields of the model; their construction only
  contributes its failures: \<open>1.0 / float(num_basis)\<close> and \<open>1 / (width)\<close> raise
  ZeroDivisionError at 0, and \<open>torch.rand\<close> rejects a negative dimension.
\<close>

definition NeuralSpectralBlock2d_init ::
  "int \<Rightarrow> int \<Rightarrow> int list \<Rightarrow> int \<Rightarrow> py_error + NeuralSpectralBlock2d" where
  "NeuralSpectralBlock2d_init w nb ps nt =
     (if nb = 0 then Inl ZeroDivisionError
      else if w = 0 then Inl ZeroDivisionError
      else if w < 0 \<or> nb < 0 \<or> nt < 0 then Inl RuntimeError
      else Inr \<lparr>patch_size = ps, width = w, num_basis = nb,
                modes_list = map (\<lambda>i. (1 / real_of_int nb) * real i) [0..<nat nb],
                head = 8, num_token = nt\<rparr>)"

text \<open>
  \<open>get_basis\<close> (lines 243-247) on one scalar of the token tensor: the \<open>num_basis\<close> sines
  followed by the \<open>num_basis\<close> cosines (\<open>torch.cat\<close> along the new last axis).
\<close>

definition basis_features :: "real list \<Rightarrow> real \<Rightarrow> real list" where
  "basis_features modes x =
     map (\<lambda>m. sin (m * x * pi)) modes @ map (\<lambda>m. cos (m * x * pi)) modes"

text \<open>\<open>get_basis\<close> on the token tensor \<open>x\<close> of shape (B, C, N): result of shape (B, C, N, 2 * num_basis).\<close>

definition get_basis :: "NeuralSpectralBlock2d \<Rightarrow> real list list list \<Rightarrow> real list list list list" where
  "get_basis blk x = map (map (map (basis_features (modes_list blk)))) x"

section \<open>UnitGaussianNormalizer\<close>

text \<open>
  The normalizer is written once for every arithmetic: the parameter \<open>rnd\<close> rounds the
  exact result of an operation on finite numbers. With \<open>rnd = Fin\<close> the operations are
  those of exact arithmetic, with \<open>rnd = binary32\<close> those of the program on
  single-precision tensors. The Python number \<open>eps\<close> takes the format of the tensor it is
  added to.
\<close>

record UnitGaussianNormalizer =
  mean :: "fp tensor"
  std :: "fp tensor"
  eps :: real

text \<open>The values of feature \<open>j\<close> over the \<open>n\<close> samples of \<open>m\<close> features each.\<close>

definition column :: "nat \<Rightarrow> nat \<Rightarrow> 'a list \<Rightarrow> nat \<Rightarrow> 'a list" where
  "column n m xs j = map (\<lambda>i. xs ! (i * m + j)) [0..<n]"

text \<open>
  \<open>__init__\<close> (lines 64-70): \<open>torch.mean(x, 0)\<close> and the unbiased \<open>torch.std(x, 0)\<close> over
  the sample axis, the sum of the squared deviations divided by \<open>max (n - 1) 0\<close>; a
  tensor without axes counts as one sample. An element list of another length than
  the shape announces is not a tensor.
\<close>

definition UnitGaussianNormalizer_init ::
  "(real \<Rightarrow> fp) \<Rightarrow> fp tensor \<Rightarrow> real \<Rightarrow> py_error + UnitGaussianNormalizer" where
  "UnitGaussianNormalizer_init rnd x e =
     (if \<not> wf_tensor x then Inl ValueError
      else let n = (case shape x of [] \<Rightarrow> 1 | n # fs \<Rightarrow> n);
               fs = (case shape x of [] \<Rightarrow> [] | n # fs \<Rightarrow> fs);
               m = prod_list fs;
               mu = map (\<lambda>j. fp_div rnd (fp_sum rnd (column n m (elems x) j)) (rnd (real n)))
                      [0..<m];
               sd = map (\<lambda>j. fp_abs_pow rnd (1 / 2)
                          (fp_div rnd
                             (fp_sum rnd (map (\<lambda>v. fp_mul rnd (fp_sub rnd v (mu ! j))
                                                              (fp_sub rnd v (mu ! j)))
                                            (column n m (elems x) j)))
                             (rnd (real (n - 1)))))
                      [0..<m]
           in Inr \<lparr>mean = \<lparr>shape = fs, elems = mu\<rparr>, std = \<lparr>shape = fs, elems = sd\<rparr>,
                   eps = e\<rparr>)"

text \<open>\<open>encode\<close> (lines 72-74): \<open>(x - self.mean) / (self.std + self.eps)\<close>.\<close>

definition encode :: "(real \<Rightarrow> fp) \<Rightarrow> UnitGaussianNormalizer \<Rightarrow> fp tensor \<Rightarrow> py_error + fp tensor" where
  "encode rnd nrm x =
     ebind (tensor_map2 (fp_sub rnd) x (mean nrm)) (\<lambda>c.
       tensor_map2 (fp_div rnd) c (tensor_map (\<lambda>s. fp_add rnd s (rnd (eps nrm))) (std nrm)))"

text \<open>
  \<open>decode\<close> (lines 76-90) with \<open>sample_idx = None\<close>, the only way it is called (lines 403
  and 420): \<open>(x * (self.std + self.eps)) + self.mean\<close>.
\<close>

definition decode :: "(real \<Rightarrow> fp) \<Rightarrow> UnitGaussianNormalizer \<Rightarrow> fp tensor \<Rightarrow> py_error + fp tensor" where
  "decode rnd nrm x =
     ebind (tensor_map2 (fp_mul rnd) x (tensor_map (\<lambda>s. fp_add rnd s (rnd (eps nrm))) (std nrm)))
       (\<lambda>c. tensor_map2 (fp_add rnd) c (mean nrm))"

text \<open>A tensor of finite numbers.\<close>

fun is_fin :: "fp \<Rightarrow> bool" where
  "is_fin (Fin x) = True"
| "is_fin a = False"

definition finite_tensor :: "fp tensor \<Rightarrow> bool" where
  "finite_tensor t \<longleftrightarrow> wf_tensor t \<and> list_all is_fin (elems t)"

section \<open>Data loading in main\<close>

text \<open>
  \<open>torch.utils.data.TensorDataset\<close> and \<open>DataLoader\<close> are library classes; they are
  modelled from their documented behaviour. A dataset pairs the samples of two tensors
  with equal sample counts. A loader walks the samples in index order, or in the order of
  a permutation when \<open>shuffle\<close> is set, and cuts them into batches of \<open>batch_size\<close>; the
  last batch is shorter when the sample count is not a multiple, and it is dropped only
  when \<open>drop_last\<close> is set (default \<open>False\<close>). The random sampler of a shuffling loader
  rejects an empty dataset, and the batch sampler a batch size that is not positive.
\<close>

definition TensorDataset :: "'a list \<Rightarrow> 'b list \<Rightarrow> py_error + ('a \<times> 'b) list" where
  "TensorDataset xs ys = (if length xs = length ys then Inr (zip xs ys) else Inl AssertionError)"

record 'a DataLoader =
  dataset :: "'a list"
  batch_size :: nat
  shuffle :: bool
  drop_last :: bool

definition DataLoader_init :: "'a list \<Rightarrow> int \<Rightarrow> bool \<Rightarrow> bool \<Rightarrow> py_error + 'a DataLoader" where
  "DataLoader_init ds bs sh dl =
     (if sh \<and> ds = [] then Inl ValueError
      else if bs \<le> 0 then Inl ValueError
      else Inr \<lparr>dataset = ds, batch_size = nat bs, shuffle = sh, drop_last = dl\<rparr>)"

function batched :: "nat \<Rightarrow> 'a list \<Rightarrow> 'a list list" where
  "batched bs xs = (if bs = 0 \<or> xs = [] then [] else take bs xs # batched bs (drop bs xs))"
  by pat_completeness auto
termination
  by (relation "measure (\<lambda>(bs, xs). length xs)") auto

declare batched.simps [simp del]

text \<open>The batches of one pass; \<open>order\<close> is the permutation drawn when \<open>shuffle\<close> is set.\<close>

definition DataLoader_iter :: "'a DataLoader \<Rightarrow> nat list \<Rightarrow> 'a list list" where
  "DataLoader_iter ld order =
     (let idx = (if shuffle ld then order else [0..<length (dataset ld)]);
          bs = batched (batch_size ld) (map (\<lambda>i. dataset ld ! i) idx)
      in if drop_last ld then filter (\<lambda>b. length b = batch_size ld) bs else bs)"

text \<open>
  \<open>main\<close>, line 386: the training loader is built with \<open>batch_size\<close> and \<open>shuffle=True\<close>
  and no \<open>drop_last\<close> argument.
\<close>

definition train_loader :: "'a list \<Rightarrow> 'b list \<Rightarrow> int \<Rightarrow> py_error + ('a \<times> 'b) DataLoader" where
  "train_loader x_train y_train bs =
     ebind (TensorDataset x_train y_train) (\<lambda>ds. DataLoader_init ds bs True False)"

text \<open>
  The training loop of one epoch (lines 398-409 and 424). The network, the decoding and
  the loss of one batch are the parameter \<open>batch_loss\<close>. For a batch of \<open>b\<close> samples the
  network returns \<open>b * s1 * s2 * out_dim\<close> numbers, and
  \<open>model(x).reshape(batch_size, s1, s2)\<close> needs \<open>batch_size * s1 * s2\<close> of them. The
  losses are added up; \<open>train_l2 /= ntrain\<close> is a Python division.
\<close>

fun train_batches ::
  "nat \<Rightarrow> nat \<Rightarrow> nat \<Rightarrow> nat \<Rightarrow> ('a list \<Rightarrow> py_error + real) \<Rightarrow> real \<Rightarrow> 'a list list
     \<Rightarrow> py_error + real" where
  "train_batches bs s1 s2 out_dim batch_loss train_l2 [] = Inr train_l2"
| "train_batches bs s1 s2 out_dim batch_loss train_l2 (b # rest) =
     (if length b * s1 * s2 * out_dim \<noteq> bs * s1 * s2 then Inl RuntimeError
      else ebind (batch_loss b) (\<lambda>loss.
           train_batches bs s1 s2 out_dim batch_loss (train_l2 + loss) rest))"

definition train_epoch ::
  "'a DataLoader \<Rightarrow> nat list \<Rightarrow> nat \<Rightarrow> nat \<Rightarrow> nat \<Rightarrow> nat \<Rightarrow> ('a list \<Rightarrow> py_error + real)
     \<Rightarrow> py_error + real" where
  "train_epoch ld order ntrain s1 s2 out_dim batch_loss =
     ebind (train_batches (batch_size ld) s1 s2 out_dim batch_loss 0 (DataLoader_iter ld order))
       (\<lambda>train_l2. if ntrain = 0 then Inl ZeroDivisionError else Inr (train_l2 / real ntrain))"

section \<open>NeuralSpectralBlock2d: attention\<close>

text \<open>
  \<open>nn.Softmax(dim=-1)\<close> on one row: \<open>exp x\<^sub>i / \<Sum>\<^sub>j exp x\<^sub>j\<close>. The library subtracts the row
  maximum first, which changes nothing over the reals.
\<close>

definition softmax :: "real list \<Rightarrow> real list" where
  "softmax xs = map (\<lambda>x. exp x / (\<Sum>y\<leftarrow>xs. exp y)) xs"

text \<open>
  \<open>torch.einsum\<close> sums the products over a shared index; extents under one letter
  must be equal or 1.
\<close>

definition contract :: "real list \<Rightarrow> real list \<Rightarrow> py_error + real" where
  "contract a b = ebind (broadcast (*) a b) (\<lambda>ps. Inr (sum_list ps))"

text \<open>\<open>"lc,sc->ls"\<close>: the dot product of every query with every key (one batch element, one head).\<close>

definition einsum_lc_sc :: "real list list \<Rightarrow> real list list \<Rightarrow> py_error + real list list" where
  "einsum_lc_sc q k = emap (\<lambda>ql. emap (\<lambda>ks. contract ql ks) k) q"

text \<open>
  The attention weights of \<open>self_attn\<close> (line 217) for one batch element and one head:
  \<open>attn\<close> is the softmax of the dot products as \<open>einsum\<close> returns them.
\<close>

definition attn :: "real list list \<Rightarrow> real list list \<Rightarrow> py_error + real list list" where
  "attn q k = ebind (einsum_lc_sc q k) (\<lambda>sc. Inr (map softmax sc))"

text \<open>
  Scaled dot-product attention weights as the specification words them: the query-key
  dot products divided by the square root of the per-head channel dimension \<open>c\<close>, then
  the softmax over the key axis.
\<close>

definition scaled_dot_product_attn ::
  "nat \<Rightarrow> real list list \<Rightarrow> real list list \<Rightarrow> py_error + real list list" where
  "scaled_dot_product_attn c q k =
     ebind (einsum_lc_sc q k) (\<lambda>sc. Inr (map (\<lambda>row. softmax (map (\<lambda>x. x / sqrt (real c)) row)) sc))"

section \<open>LpLoss\<close>

record LpLoss =
  lp_d :: real
  lp_p :: real

text \<open>\<open>__init__\<close> (lines 102-109): the fields \<open>d\<close> and \<open>p\<close>, asserted positive.\<close>

definition LpLoss_init :: "real \<Rightarrow> real \<Rightarrow> py_error + LpLoss" where
  "LpLoss_init d p = (if d > 0 \<and> p > 0 then Inr \<lparr>lp_d = d, lp_p = p\<rparr> else Inl AssertionError)"

text \<open>\<open>torch.norm(v, p, 1)\<close> on one row: \<open>(\<Sum> |v\<^sub>i|\<^sup>p)\<^sup>1\<^sup>/\<^sup>p\<close>.\<close>

definition lp_norm :: "real \<Rightarrow> real list \<Rightarrow> real" where
  "lp_norm p v = (\<Sum>x\<leftarrow>v. \<bar>x\<bar> powr p) powr (1 / p)"

text \<open>
  The difference \<open>x.reshape(num_examples, -1) - y.reshape(num_examples, -1)\<close> with
  \<open>num_examples = x.size()[0]\<close>, as a list of rows.
\<close>

definition diff_rows :: "real tensor \<Rightarrow> real tensor \<Rightarrow> py_error + real list list" where
  "diff_rows x y =
     ebind (py_get (shape x) 0) (\<lambda>num_examples.
     ebind (reshape_rows num_examples x) (\<lambda>xr.
     ebind (reshape_rows num_examples y) (\<lambda>yr.
     emap (\<lambda>(a, b). broadcast (-) a b) (zip xr yr))))"

text \<open>
  \<open>abs\<close> (lines 111-119). \<open>h = 1.0 / (x.size()[1] - 1.0)\<close> is a Python float division:
  it raises for an extent of 1. \<open>h ** (d / p)\<close> is \<open>h powr (d / p)\<close> for \<open>h > 0\<close>; for an
  extent of 0 (\<open>h = -1\<close>) a well-formed tensor has no elements and every norm it
  multiplies is 0.
\<close>

definition LpLoss_abs :: "LpLoss \<Rightarrow> real tensor \<Rightarrow> real tensor \<Rightarrow> py_error + real" where
  "LpLoss_abs L x y =
     ebind (py_get (shape x) 0) (\<lambda>num_examples.
     ebind (py_get (shape x) 1) (\<lambda>s1.
     if s1 = 1 then Inl ZeroDivisionError
     else let h = 1 / (real s1 - 1) in
     ebind (diff_rows x y) (\<lambda>df.
       let all_norms = map (\<lambda>r. (h powr (lp_d L / lp_p L)) * lp_norm (lp_p L) r) df
       in Inr (sum_list all_norms))))"

text \<open>
  \<open>rel\<close> (lines 121-127): the elementwise quotient of the two norm vectors has a zero
  divisor where a sample of \<open>y\<close> has norm 0.
\<close>

definition LpLoss_rel :: "LpLoss \<Rightarrow> real tensor \<Rightarrow> real tensor \<Rightarrow> py_error + real" where
  "LpLoss_rel L x y =
     ebind (py_get (shape x) 0) (\<lambda>num_examples.
     ebind (diff_rows x y) (\<lambda>df.
     ebind (reshape_rows num_examples y) (\<lambda>yr.
       let diff_norms = map (lp_norm (lp_p L)) df;
           y_norms = map (lp_norm (lp_p L)) yr
       in ebind (tdiv diff_norms y_norms) (\<lambda>q. Inr (sum_list q)))))"

text \<open>\<open>__call__\<close> (lines 130-131).\<close>

definition LpLoss_call :: "LpLoss \<Rightarrow> real tensor \<Rightarrow> real tensor \<Rightarrow> py_error + real" where
  "LpLoss_call L x y = LpLoss_rel L x y"

text \<open>The tensor \<open>k * t\<close>.\<close>

definition scale :: "real \<Rightarrow> real tensor \<Rightarrow> real tensor" where
  "scale k t = t\<lparr>elems := map (\<lambda>v. k * v) (elems t)\<rparr>"

text \<open>
  The same lines in the arithmetic of the program, for a rounding \<open>rnd\<close> of the exact
  result of every operation (\<open>binary32\<close> for single-precision tensors). The norm of a row
  is the rounded \<open>1/p\<close>-th power of the sum of the rounded \<open>p\<close>-th powers, added up from
  the left. The Python number \<open>h ** (d / p)\<close> takes the format of the tensor it is
  multiplied with.
\<close>

definition lp_norm_fp :: "(real \<Rightarrow> fp) \<Rightarrow> real \<Rightarrow> fp list \<Rightarrow> fp" where
  "lp_norm_fp rnd p v = fp_abs_pow rnd (1 / p) (fp_sum rnd (map (fp_abs_pow rnd p) v))"

definition diff_rows_fp :: "(real \<Rightarrow> fp) \<Rightarrow> fp tensor \<Rightarrow> fp tensor \<Rightarrow> py_error + fp list list" where
  "diff_rows_fp rnd x y =
     ebind (py_get (shape x) 0) (\<lambda>num_examples.
     ebind (reshape_rows num_examples x) (\<lambda>xr.
     ebind (reshape_rows num_examples y) (\<lambda>yr.
     emap (\<lambda>(a, b). broadcast (fp_sub rnd) a b) (zip xr yr))))"

definition LpLoss_abs_fp :: "(real \<Rightarrow> fp) \<Rightarrow> LpLoss \<Rightarrow> fp tensor \<Rightarrow> fp tensor \<Rightarrow> py_error + fp" where
  "LpLoss_abs_fp rnd L x y =
     ebind (py_get (shape x) 0) (\<lambda>num_examples.
     ebind (py_get (shape x) 1) (\<lambda>s1.
     if s1 = 1 then Inl ZeroDivisionError
     else let h = 1 / (real s1 - 1) in
     ebind (diff_rows_fp rnd x y) (\<lambda>df.
       let all_norms = map (\<lambda>r. fp_mul rnd (rnd (h powr (lp_d L / lp_p L)))
                                  (lp_norm_fp rnd (lp_p L) r)) df
       in Inr (fp_sum rnd all_norms))))"

definition LpLoss_rel_fp :: "(real \<Rightarrow> fp) \<Rightarrow> LpLoss \<Rightarrow> fp tensor \<Rightarrow> fp tensor \<Rightarrow> py_error + fp" where
  "LpLoss_rel_fp rnd L x y =
     ebind (py_get (shape x) 0) (\<lambda>num_examples.
     ebind (diff_rows_fp rnd x y) (\<lambda>df.
     ebind (reshape_rows num_examples y) (\<lambda>yr.
       let diff_norms = map (lp_norm_fp rnd (lp_p L)) df;
           y_norms = map (lp_norm_fp rnd (lp_p L)) yr
       in ebind (broadcast (fp_div rnd) diff_norms y_norms) (\<lambda>q. Inr (fp_sum rnd q)))))"

text \<open>The tensor \<open>k * t\<close> in that arithmetic.\<close>

definition scale_fp :: "(real \<Rightarrow> fp) \<Rightarrow> real \<Rightarrow> fp tensor \<Rightarrow> fp tensor" where
  "scale_fp rnd k t = tensor_map (fp_mul rnd (rnd k)) t"

section \<open>NeuralSpectralBlock2d: patchify and de-patchify\<close>

fun index_of :: "nat list \<Rightarrow> nat \<Rightarrow> nat" where
  "index_of [] a = 0"
| "index_of (x # xs) a = (if x = a then 0 else Suc (index_of xs a))"

text \<open>
  \<open>t.permute(perm).contiguous()\<close>: axis \<open>m\<close> of the result is axis \<open>perm ! m\<close> of \<open>t\<close>, so
  the element at the multi-index \<open>j\<close> of the result is the element of \<open>t\<close> at the
  multi-index \<open>i\<close> with \<open>i ! (perm ! m) = j ! m\<close>; \<open>contiguous\<close> lays the result out
  row-major. The axes must be a permutation of the axes of \<open>t\<close>.
\<close>

definition src_index :: "nat list \<Rightarrow> nat list \<Rightarrow> nat list" where
  "src_index perm j = map (\<lambda>a. j ! index_of perm a) [0..<length perm]"

definition permute :: "nat list \<Rightarrow> 'a tensor \<Rightarrow> py_error + 'a tensor" where
  "permute perm t =
     (if length perm \<noteq> length (shape t) \<or> \<not> distinct perm
         \<or> \<not> list_all (\<lambda>a. a < length (shape t)) perm
      then Inl RuntimeError
      else let new_shape = map (\<lambda>a. shape t ! a) perm
           in Inr \<lparr>shape = new_shape,
                   elems = map (\<lambda>k. elems t ! ravel (shape t) (src_index perm (unravel new_shape k)))
                             [0..<length (elems t)]\<rparr>)"

text \<open>
  \<open>t.view(dims)\<close> on a contiguous tensor keeps the elements and replaces the shape. One
  extent may be \<open>-1\<close> and is then inferred from the element count; any other negative
  extent, an extent that cannot be inferred, and a shape of another element count raise.
\<close>

definition view :: "int list \<Rightarrow> 'a tensor \<Rightarrow> py_error + 'a tensor" where
  "view dims t =
     (let numel = length (elems t) in
      if list_ex (\<lambda>d. d < - 1) dims \<or> 1 < length (filter (\<lambda>d. d = - 1) dims)
      then Inl RuntimeError
      else if list_ex (\<lambda>d. d = - 1) dims then
        (let known = prod_list (map nat (filter (\<lambda>d. d \<noteq> - 1) dims))
         in if known = 0 \<or> numel mod known \<noteq> 0 then Inl RuntimeError
            else Inr (t\<lparr>shape := map (\<lambda>d. if d = - 1 then numel div known else nat d) dims\<rparr>))
      else if prod_list (map nat dims) \<noteq> numel then Inl RuntimeError
      else Inr (t\<lparr>shape := map nat dims\<rparr>))"

definition py_floordiv :: "int \<Rightarrow> int \<Rightarrow> py_error + int" where
  "py_floordiv a b = (if b = 0 then Inl ZeroDivisionError else Inr (a div b))"

text \<open>\<open>B, C, H, W = x.shape\<close> (line 253).\<close>

definition unpack4 :: "nat list \<Rightarrow> py_error + (nat \<times> nat \<times> nat \<times> nat)" where
  "unpack4 s = (case s of [B, C, H, W] \<Rightarrow> Inr (B, C, H, W) | _ \<Rightarrow> Inl ValueError)"

text \<open>
  Patchify (lines 255-261): the arguments of the first \<open>view\<close> are evaluated left to
  right, then \<open>view\<close>, \<open>permute(0, 2, 4, 1, 3, 5)\<close> and the second \<open>view\<close>; every extent
  is read from the incoming \<open>x\<close>.
\<close>

definition patchify :: "NeuralSpectralBlock2d \<Rightarrow> 'a tensor \<Rightarrow> py_error + 'a tensor" where
  "patchify blk x =
     ebind (py_get (shape x) 0) (\<lambda>s0.
     ebind (py_get (shape x) 1) (\<lambda>s1.
     ebind (py_get (shape x) 2) (\<lambda>s2.
     ebind (py_get (patch_size blk) 0) (\<lambda>p0.
     ebind (py_floordiv (int s2) p0) (\<lambda>h.
     ebind (py_get (shape x) 3) (\<lambda>s3.
     ebind (py_get (patch_size blk) 1) (\<lambda>p1.
     ebind (py_floordiv (int s3) p1) (\<lambda>w.
     ebind (view [int s0, int s1, h, p0, w, p1] x) (\<lambda>x1.
     ebind (permute [0, 2, 4, 1, 3, 5] x1) (\<lambda>x2.
     view [int s0 * h * w, int s1, p0, p1] x2))))))))))"

text \<open>De-patchify (line 271), with \<open>B, C, H, W\<close> as unpacked on entry.\<close>

definition depatchify ::
  "NeuralSpectralBlock2d \<Rightarrow> nat \<Rightarrow> nat \<Rightarrow> nat \<Rightarrow> nat \<Rightarrow> 'a tensor \<Rightarrow> py_error + 'a tensor" where
  "depatchify blk B C H W x =
     ebind (py_get (patch_size blk) 0) (\<lambda>p0.
     ebind (py_floordiv (int H) p0) (\<lambda>h.
     ebind (py_get (patch_size blk) 1) (\<lambda>p1.
     ebind (py_floordiv (int W) p1) (\<lambda>w.
     ebind (view [int B, h, w, int C, p0, p1] x) (\<lambda>x1.
     ebind (permute [0, 3, 1, 4, 2, 5] x1) (\<lambda>x2.
     view [int B, int C, int H, int W] x2))))))"

text \<open>
  \<open>forward\<close> (lines 252-272). The encoder attention, the basis transition and the decoder
  attention between the two reshapes depend on the learned parameters; they are the
  parameter \<open>spectral\<close>, a map on patch tensors.
\<close>

definition NeuralSpectralBlock2d_forward ::
  "NeuralSpectralBlock2d \<Rightarrow> ('a tensor \<Rightarrow> py_error + 'a tensor) \<Rightarrow> 'a tensor
     \<Rightarrow> py_error + 'a tensor" where
  "NeuralSpectralBlock2d_forward blk spectral x =
     ebind (unpack4 (shape x)) (\<lambda>(B, C, H, W).
     ebind (patchify blk x) (\<lambda>xp.
     ebind (spectral xp) (\<lambda>xs.
     depatchify blk B C H W xs)))"

section \<open>LSM\_2D: the shapes of the forward pass\<close>

text \<open>
  The layers of the network hold learned weights; what a layer does to the shape of its
  input depends on its channel counts only. A layer is modelled by these counts, and its
  \<open>forward\<close> by the map on shapes (B, C, H, W), failing where PyTorch rejects the input.
\<close>

record DoubleConv =
  in_channels :: nat
  mid_channels :: nat
  out_channels :: nat

text \<open>\<open>DoubleConv.__init__\<close> (lines 137-148): \<open>mid_channels\<close> defaults to \<open>out_channels\<close>.\<close>

definition DoubleConv_init :: "nat \<Rightarrow> nat \<Rightarrow> nat option \<Rightarrow> DoubleConv" where
  "DoubleConv_init cin cout mid =
     \<lparr>in_channels = cin,
      mid_channels = (case mid of None \<Rightarrow> cout | Some m \<Rightarrow> if m = 0 then cout else m),
      out_channels = cout\<rparr>"

text \<open>\<open>nn.Conv2d(cin, cout, kernel_size=3, padding=1)\<close>: the extents stay; the kernel must fit.\<close>

definition conv3x3 :: "nat \<Rightarrow> nat \<Rightarrow> nat list \<Rightarrow> py_error + nat list" where
  "conv3x3 cin cout s =
     (case s of
        [B, C, H, W] \<Rightarrow> if C \<noteq> cin \<or> H = 0 \<or> W = 0 then Inl RuntimeError
                        else Inr [B, cout, H, W]
      | _ \<Rightarrow> Inl RuntimeError)"

text \<open>\<open>nn.BatchNorm2d\<close>: in training mode it needs more than one value per channel.\<close>

definition batch_norm :: "bool \<Rightarrow> nat list \<Rightarrow> py_error + nat list" where
  "batch_norm train s =
     (case s of
        [B, C, H, W] \<Rightarrow> if train \<and> B * H * W = 1 then Inl ValueError else Inr s
      | _ \<Rightarrow> Inl ValueError)"

text \<open>\<open>DoubleConv.forward\<close> (lines 150-151): (convolution, batch norm, ReLU) twice.\<close>

definition DoubleConv_forward :: "bool \<Rightarrow> DoubleConv \<Rightarrow> nat list \<Rightarrow> py_error + nat list" where
  "DoubleConv_forward train dc s =
     ebind (conv3x3 (in_channels dc) (mid_channels dc) s) (\<lambda>s1.
     ebind (batch_norm train s1) (\<lambda>s2.
     ebind (conv3x3 (mid_channels dc) (out_channels dc) s2) (\<lambda>s3.
     batch_norm train s3)))"

text \<open>\<open>Down.forward\<close> (lines 163-164): \<open>nn.MaxPool2d(2)\<close> halves the extents, then the double convolution.\<close>

definition Down_forward :: "bool \<Rightarrow> DoubleConv \<Rightarrow> nat list \<Rightarrow> py_error + nat list" where
  "Down_forward train dc s =
     (case s of
        [B, C, H, W] \<Rightarrow> if H div 2 = 0 \<or> W div 2 = 0 then Inl RuntimeError
                        else DoubleConv_forward train dc [B, C, H div 2, W div 2]
      | _ \<Rightarrow> Inl RuntimeError)"

text \<open>\<open>F.pad(x, [left, right, top, bottom])\<close> on the last two axes; a negative amount crops.\<close>

definition pad2d :: "int \<Rightarrow> int \<Rightarrow> int \<Rightarrow> int \<Rightarrow> nat list \<Rightarrow> py_error + nat list" where
  "pad2d pl pr pt pb s =
     (case s of
        [B, C, H, W] \<Rightarrow>
          if int H + pt + pb < 0 \<or> int W + pl + pr < 0 then Inl RuntimeError
          else Inr [B, C, nat (int H + pt + pb), nat (int W + pl + pr)]
      | _ \<Rightarrow> Inl RuntimeError)"

text \<open>
  \<open>Up.forward\<close> (lines 175-183): \<open>x1\<close> is upsampled by 2, padded to the extents of the
  skip map \<open>x2\<close>, concatenated to it along the channels and convolved.
\<close>

definition Up_forward :: "bool \<Rightarrow> DoubleConv \<Rightarrow> nat list \<Rightarrow> nat list \<Rightarrow> py_error + nat list" where
  "Up_forward train dc x1 x2 =
     (case (x1, x2) of
        ([B1, C1, H1, W1], [B2, C2, H2, W2]) \<Rightarrow>
          (let diffY = int H2 - int (2 * H1);
               diffX = int W2 - int (2 * W1)
           in ebind (pad2d (diffX div 2) (diffX - diffX div 2) (diffY div 2) (diffY - diffY div 2)
                       [B1, C1, 2 * H1, 2 * W1]) (\<lambda>x1p.
              if x1p \<noteq> [B2, C1, H2, W2] then Inl RuntimeError
              else DoubleConv_forward train dc [B2, C2 + C1, H2, W2]))
      | _ \<Rightarrow> Inl RuntimeError)"

text \<open>
  The shapes in \<open>NeuralSpectralBlock2d.forward\<close> (lines 220-272): the two reshapes need
  patch extents that divide \<open>H\<close> and \<open>W\<close>; the 1x1 convolutions need \<open>width\<close> channels;
  the views that split the channels over the heads need a channel count that is a
  multiple of \<open>head\<close>, and \<open>view(B, 2 * C, -1)\<close> cannot infer an extent of an empty tensor.
  The result has the shape of the input.
\<close>

definition NeuralSpectralBlock2d_shape :: "NeuralSpectralBlock2d \<Rightarrow> nat list \<Rightarrow> py_error + nat list" where
  "NeuralSpectralBlock2d_shape blk s =
     (case s of
        [B, C, H, W] \<Rightarrow>
          ebind (py_get (patch_size blk) 0) (\<lambda>p0.
          ebind (py_floordiv (int H) p0) (\<lambda>h.
          ebind (py_get (patch_size blk) 1) (\<lambda>p1.
          ebind (py_floordiv (int W) p1) (\<lambda>w.
            if p0 < 0 \<or> p1 < 0 \<or> int B * int C * h * p0 * w * p1 \<noteq> int (B * C * H * W)
            then Inl RuntimeError
            else if int C \<noteq> width blk then Inl RuntimeError
            else if B * C * H * W = 0 then Inl RuntimeError
            else if int C mod head blk \<noteq> 0 then Inl RuntimeError
            else Inr [B, C, H, W]))))
      | _ \<Rightarrow> Inl ValueError)"

text \<open>\<open>nn.Linear(i, o)\<close> acts on the last axis.\<close>

definition Linear :: "nat \<times> nat \<Rightarrow> nat list \<Rightarrow> py_error + nat list" where
  "Linear io s =
     (if s = [] \<or> last s \<noteq> fst io then Inl RuntimeError else Inr (butlast s @ [snd io]))"

text \<open>The extent of \<open>x[:stop]\<close> along an axis of extent \<open>n\<close>.\<close>

definition slice_to :: "nat \<Rightarrow> int \<Rightarrow> nat" where
  "slice_to n stop = (if stop < 0 then nat (int n + stop) else min n (nat stop))"

record LSM_2D =
  inc :: DoubleConv
  down1 :: DoubleConv
  down2 :: DoubleConv
  down3 :: DoubleConv
  down4 :: DoubleConv
  up1 :: DoubleConv
  up2 :: DoubleConv
  up3 :: DoubleConv
  up4 :: DoubleConv
  outc :: "nat \<times> nat"
  process1 :: NeuralSpectralBlock2d
  process2 :: NeuralSpectralBlock2d
  process3 :: NeuralSpectralBlock2d
  process4 :: NeuralSpectralBlock2d
  process5 :: NeuralSpectralBlock2d
  padding :: "int list"
  fc0 :: "nat \<times> nat"
  fc1 :: "nat \<times> nat"
  fc2 :: "nat \<times> nat"
  training :: bool

text \<open>
  \<open>LSM_2D.__init__\<close> (lines 275-306), with \<open>patch_size\<close> and \<open>padding\<close> already parsed
  to integer lists. The layers are built in the order of the source: the convolutions
  (a negative channel count is a negative tensor extent), the five spectral blocks, the
  three linear layers (likewise). A channel count of 0 is accepted by the layers; the
  spectral blocks then raise. A new module is in training mode.
\<close>

definition LSM_2D_init ::
  "int \<Rightarrow> int \<Rightarrow> int \<Rightarrow> int \<Rightarrow> int \<Rightarrow> int list \<Rightarrow> int list \<Rightarrow> py_error + LSM_2D" where
  "LSM_2D_init in_dim out_dim d_model ntoken nbasis psize pad =
     (if d_model < 0 then Inl RuntimeError
      else let w = nat d_model in
        ebind (NeuralSpectralBlock2d_init d_model nbasis psize ntoken) (\<lambda>pr1.
        ebind (NeuralSpectralBlock2d_init (d_model * 2) nbasis psize ntoken) (\<lambda>pr2.
        ebind (NeuralSpectralBlock2d_init (d_model * 4) nbasis psize ntoken) (\<lambda>pr3.
        ebind (NeuralSpectralBlock2d_init (d_model * 8) nbasis psize ntoken) (\<lambda>pr4.
        ebind (NeuralSpectralBlock2d_init (d_model * 16 div 2) nbasis psize ntoken) (\<lambda>pr5.
          if in_dim + 2 < 0 \<or> out_dim < 0 then Inl RuntimeError
          else Inr \<lparr>inc = DoubleConv_init w w None,
                 down1 = DoubleConv_init w (w * 2) None,
                 down2 = DoubleConv_init (w * 2) (w * 4) None,
                 down3 = DoubleConv_init (w * 4) (w * 8) None,
                 down4 = DoubleConv_init (w * 8) (w * 16 div 2) None,
                 up1 = DoubleConv_init (w * 16) (w * 8 div 2) (Some (w * 16 div 2)),
                 up2 = DoubleConv_init (w * 8) (w * 4 div 2) (Some (w * 8 div 2)),
                 up3 = DoubleConv_init (w * 4) (w * 2 div 2) (Some (w * 4 div 2)),
                 up4 = DoubleConv_init (w * 2) w (Some (w * 2 div 2)),
                 outc = (w, w),
                 process1 = pr1, process2 = pr2, process3 = pr3, process4 = pr4,
                 process5 = pr5,
                 padding = pad,
                 fc0 = (nat (in_dim + 2), w), fc1 = (w, 128), fc2 = (128, nat out_dim),
                 training = True\<rparr>))))))"

text \<open>
  \<open>LSM_2D.forward\<close> (lines 308-334) on the shape (batch, H, W, channels) of \<open>x\<close>, in
  the five steps of the source. Lines 309-312: the grid of \<open>get_grid\<close> has the shape
  (batch, H, W, 2) and is concatenated along the last axis, \<open>fc0\<close> acts on that axis and
  \<open>permute(0, 3, 1, 2)\<close> moves it to the front of the spatial axes.
\<close>

definition lsm_lift :: "LSM_2D \<Rightarrow> nat list \<Rightarrow> py_error + nat list" where
  "lsm_lift M s =
     (if length s < 3 then Inl IndexError
      else case s of
        [B, H, W, c] \<Rightarrow>
          ebind (Linear (fc0 M) [B, H, W, c + 2]) (\<lambda>x.
          case x of [b, h, w, ch] \<Rightarrow> Inr [b, ch, h, w] | _ \<Rightarrow> Inl RuntimeError)
      | _ \<Rightarrow> Inl RuntimeError)"

text \<open>
  Lines 314-315: unless every padding entry is 0, \<open>F.pad(x, [0, padding[0], 0, padding[1]])\<close>
  widens the last axis by \<open>padding[0]\<close> and the one before it by \<open>padding[1]\<close>.
\<close>

definition lsm_pad :: "LSM_2D \<Rightarrow> nat list \<Rightarrow> py_error + nat list" where
  "lsm_pad M x =
     (if \<not> list_all (\<lambda>item. item = 0) (padding M)
      then ebind (py_get (padding M) 0) (\<lambda>pad0.
           ebind (py_get (padding M) 1) (\<lambda>pad1. pad2d 0 pad0 0 pad1 x))
      else Inr x)"

text \<open>Lines 317-326: the encoder, the five spectral blocks on the skip maps, the decoder.\<close>

definition lsm_unet :: "LSM_2D \<Rightarrow> nat list \<Rightarrow> py_error + nat list" where
  "lsm_unet M x =
     ebind (DoubleConv_forward (training M) (inc M) x) (\<lambda>x1.
     ebind (Down_forward (training M) (down1 M) x1) (\<lambda>x2.
     ebind (Down_forward (training M) (down2 M) x2) (\<lambda>x3.
     ebind (Down_forward (training M) (down3 M) x3) (\<lambda>x4.
     ebind (Down_forward (training M) (down4 M) x4) (\<lambda>x5.
     ebind (NeuralSpectralBlock2d_shape (process5 M) x5) (\<lambda>y5.
     ebind (NeuralSpectralBlock2d_shape (process4 M) x4) (\<lambda>y4.
     ebind (Up_forward (training M) (up1 M) y5 y4) (\<lambda>u1.
     ebind (NeuralSpectralBlock2d_shape (process3 M) x3) (\<lambda>y3.
     ebind (Up_forward (training M) (up2 M) u1 y3) (\<lambda>u2.
     ebind (NeuralSpectralBlock2d_shape (process2 M) x2) (\<lambda>y2.
     ebind (Up_forward (training M) (up3 M) u2 y2) (\<lambda>u3.
     ebind (NeuralSpectralBlock2d_shape (process1 M) x1) (\<lambda>y1.
     ebind (Up_forward (training M) (up4 M) u3 y1) (\<lambda>u4.
     case u4 of
       [b, ch, h, w] \<Rightarrow>
         if ch = fst (outc M) then Inr [b, snd (outc M), h, w] else Inl RuntimeError
     | _ \<Rightarrow> Inl RuntimeError))))))))))))))"

text \<open>
  Lines 328-329: unless every padding entry is 0, \<open>x[..., :-padding[1], :-padding[0]]\<close>
  slices the last two axes.
\<close>

definition lsm_crop :: "LSM_2D \<Rightarrow> nat list \<Rightarrow> py_error + nat list" where
  "lsm_crop M x =
     (if \<not> list_all (\<lambda>item. item = 0) (padding M)
      then ebind (py_get (padding M) 1) (\<lambda>pad1.
           ebind (py_get (padding M) 0) (\<lambda>pad0.
             case x of
               [b, ch, h, w] \<Rightarrow> Inr [b, ch, slice_to h (- pad1), slice_to w (- pad0)]
             | _ \<Rightarrow> Inl RuntimeError))
      else Inr x)"

text \<open>Lines 330-333: \<open>permute(0, 2, 3, 1)\<close>, \<open>fc1\<close>, GELU and \<open>fc2\<close>.\<close>

definition lsm_project :: "LSM_2D \<Rightarrow> nat list \<Rightarrow> py_error + nat list" where
  "lsm_project M x =
     ebind (case x of [b, ch, h, w] \<Rightarrow> Inr [b, h, w, ch] | _ \<Rightarrow> Inl RuntimeError) (\<lambda>x.
     ebind (Linear (fc1 M) x) (\<lambda>x.
     Linear (fc2 M) x))"

definition LSM_2D_forward :: "LSM_2D \<Rightarrow> nat list \<Rightarrow> py_error + nat list" where
  "LSM_2D_forward M s =
     ebind (lsm_lift M s) (\<lambda>x.
     ebind (lsm_pad M x) (\<lambda>x.
     ebind (lsm_unet M x) (\<lambda>x.
     ebind (lsm_crop M x) (\<lambda>x.
     lsm_project M x))))"

section \<open>Facts about the error monad\<close>

lemma ebind_Inr [simp]: "ebind (Inr v) f = f v"
  by (simp add: ebind_def)

lemma ebind_Inl [simp]: "ebind (Inl e) f = Inl e"
  by (simp add: ebind_def)

section \<open>Facts about row-major addressing\<close>

lemma tensor_eq_iff: "(x :: 'a tensor) = y \<longleftrightarrow> shape x = shape y \<and> elems x = elems y"
  by (cases x; cases y) auto

lemma length_unravel [simp]: "length (unravel s k) = length s"
  by (induction s arbitrary: k) simp_all

lemma unravel_bound: "k < prod_list s \<Longrightarrow> list_all2 (<) (unravel s k) s"
proof (induction s arbitrary: k)
  case Nil
  then show ?case by simp
next
  case (Cons d ds)
  from Cons.prems have P: "0 < prod_list ds"
    by (cases "prod_list ds = 0") simp_all
  have "k div prod_list ds < d"
    using Cons.prems P by (simp add: less_mult_imp_div_less mult.commute)
  moreover have "k mod prod_list ds < prod_list ds" using P by simp
  ultimately show ?case using Cons.IH by simp
qed

lemma ravel_unravel: "k < prod_list s \<Longrightarrow> ravel s (unravel s k) = k"
proof (induction s arbitrary: k)
  case Nil
  then show ?case by simp
next
  case (Cons d ds)
  from Cons.prems have P: "0 < prod_list ds"
    by (cases "prod_list ds = 0") simp_all
  then have "k mod prod_list ds < prod_list ds" by simp
  from Cons.IH[OF this] show ?case by simp
qed

lemma ravel_bound: "list_all2 (<) js s \<Longrightarrow> ravel s js < prod_list s"
proof (induction js s rule: list_all2_induct)
  case Nil
  then show ?case by simp
next
  case (Cons i js d ds)
  have "i * prod_list ds + ravel ds js < i * prod_list ds + prod_list ds"
    using Cons.IH by simp
  also have "\<dots> = Suc i * prod_list ds" by simp
  also have "\<dots> \<le> d * prod_list ds"
    using Cons.hyps(1) by (intro mult_le_mono1) simp
  finally show ?case by simp
qed

lemma unravel_ravel: "list_all2 (<) js s \<Longrightarrow> unravel s (ravel s js) = js"
proof (induction js s rule: list_all2_induct)
  case Nil
  then show ?case by simp
next
  case (Cons i js d ds)
  have r: "ravel ds js < prod_list ds" by (rule ravel_bound[OF Cons.hyps(2)])
  then show ?case using Cons.IH by simp
qed

lemma length_pad_shape: "length s \<le> n \<Longrightarrow> length (pad_shape n s) = n"
  by (simp add: pad_shape_def)

lemma prod_list_pad_shape [simp]: "prod_list (pad_shape n s) = prod_list s"
  by (simp add: pad_shape_def)

lemma pad_shape_same [simp]: "pad_shape (length s) s = s"
  by (simp add: pad_shape_def)

lemma broadcast_shapes_fits:
  assumes "broadcast_shapes a b = Inr s"
  shows "length s = max (length a) (length b)"
    and "fits (pad_shape (length s) a) s"
    and "fits (pad_shape (length s) b) s"
proof -
  let ?n = "max (length a) (length b)"
  let ?pa = "pad_shape ?n a" and ?pb = "pad_shape ?n b"
  from assms have c: "list_all2 (\<lambda>x y. x = y \<or> x = 1 \<or> y = 1) ?pa ?pb"
    and s: "s = map2 (\<lambda>x y. if x = 1 then y else x) ?pa ?pb"
    by (auto simp: broadcast_shapes_def Let_def split: if_splits)
  have la: "length ?pa = ?n" and lb: "length ?pb = ?n"
    by (simp_all add: length_pad_shape)
  show ls: "length s = ?n" unfolding s using la lb by simp
  have "list_all2 (\<lambda>d D. d = D \<or> d = 1) ?pa (map2 (\<lambda>x y. if x = 1 then y else x) ?pa ?pb)"
    using c la lb by (auto simp: list_all2_conv_all_nth)
  then show "fits (pad_shape (length s) a) s"
    unfolding fits_def ls using s by simp
  have "list_all2 (\<lambda>d D. d = D \<or> d = 1) ?pb (map2 (\<lambda>x y. if x = 1 then y else x) ?pa ?pb)"
    using c la lb by (auto simp: list_all2_conv_all_nth)
  then show "fits (pad_shape (length s) b) s"
    unfolding fits_def ls using s by simp
qed

lemma broadcast_shapes_absorb:
  assumes "fits (pad_shape (length s) b) s" and "length b \<le> length s"
  shows "broadcast_shapes s b = Inr s"
proof -
  have n: "max (length s) (length b) = length s" using assms(2) by simp
  have lb: "length (pad_shape (length s) b) = length s"
    using assms(2) by (simp add: length_pad_shape)
  from assms(1) have f: "list_all2 (\<lambda>d D. d = D \<or> d = 1) (pad_shape (length s) b) s"
    by (simp add: fits_def)
  then have c: "list_all2 (\<lambda>x y. x = y \<or> x = 1 \<or> y = 1) s (pad_shape (length s) b)"
    by (auto simp: list_all2_conv_all_nth)
  have "map2 (\<lambda>x y. if x = 1 then y else x) s (pad_shape (length s) b) = s"
    using f lb by (auto simp: list_all2_conv_all_nth intro!: nth_equalityI)
  with c show ?thesis
    by (simp add: broadcast_shapes_def Let_def n)
qed

lemma src_in_range:
  fixes s :: "nat list"
  assumes "fits p s" and "list_all2 (<) idx s"
  shows "list_all2 (<) (map2 (\<lambda>d i. if d = 1 then 0 else i) p idx) p"
  using assms unfolding fits_def
  by (auto simp: list_all2_conv_all_nth)

lemma src_identity:
  fixes s :: "nat list"
  assumes "list_all2 (<) idx s"
  shows "map2 (\<lambda>d i. if d = 1 then 0 else i) s idx = idx"
proof (rule nth_equalityI)
  show "length (map2 (\<lambda>d i. if d = 1 then 0 else i) s idx) = length idx"
    using assms by (simp add: list_all2_lengthD)
next
  fix i assume "i < length (map2 (\<lambda>d i. if d = 1 then 0 else i) s idx)"
  then have i: "i < length s" "i < length idx" by simp_all
  with assms have "idx ! i < s ! i" by (simp add: list_all2_conv_all_nth)
  then have "s ! i = 1 \<Longrightarrow> idx ! i = 0" by simp
  then show "map2 (\<lambda>d i. if d = 1 then 0 else i) s idx ! i = idx ! i"
    using i by simp
qed

text \<open>Every element of an expanded tensor is an element of the tensor.\<close>

lemma broadcast_to_nth:
  assumes wf: "wf_tensor t" and f: "fits (pad_shape (length s) (shape t)) s"
    and k: "k < prod_list s"
  shows "\<exists>j < length (elems t). elems (broadcast_to s t) ! k = elems t ! j"
proof -
  let ?p = "pad_shape (length s) (shape t)"
  let ?j = "ravel ?p (map2 (\<lambda>d i. if d = 1 then 0 else i) ?p (unravel s k))"
  have "list_all2 (<) (unravel s k) s" by (rule unravel_bound[OF k])
  from ravel_bound[OF src_in_range[OF f this]] have "?j < length (elems t)"
    using wf by (simp add: wf_tensor_def)
  moreover have "elems (broadcast_to s t) ! k = elems t ! ?j"
    using k by (simp add: broadcast_to_def Let_def)
  ultimately show ?thesis by blast
qed

lemma length_broadcast_to [simp]: "length (elems (broadcast_to s t)) = prod_list s"
  by (simp add: broadcast_to_def Let_def)

lemma shape_broadcast_to [simp]: "shape (broadcast_to s t) = s"
  by (simp add: broadcast_to_def Let_def)

lemma broadcast_to_same:
  assumes "wf_tensor t"
  shows "broadcast_to (shape t) t = t"
proof -
  have "map (\<lambda>k. elems t ! ravel (shape t)
            (map2 (\<lambda>d i. if d = 1 then 0 else i) (shape t) (unravel (shape t) k)))
          [0..<prod_list (shape t)]
      = map (\<lambda>k. elems t ! k) [0..<prod_list (shape t)]"
  proof (rule map_cong[OF refl])
    fix k assume "k \<in> set [0..<prod_list (shape t)]"
    then have k: "k < prod_list (shape t)" by simp
    have "map2 (\<lambda>d i. if d = 1 then 0 else i) (shape t) (unravel (shape t) k) = unravel (shape t) k"
      by (rule src_identity[OF unravel_bound[OF k]])
    then show "elems t ! ravel (shape t)
            (map2 (\<lambda>d i. if d = 1 then 0 else i) (shape t) (unravel (shape t) k)) = elems t ! k"
      by (simp add: ravel_unravel[OF k])
  qed
  also have "\<dots> = elems t"
    using assms map_nth[of "elems t"] by (simp add: wf_tensor_def)
  finally show ?thesis
    by (simp add: broadcast_to_def Let_def)
qed

lemma wf_tensor_map [simp]: "wf_tensor (tensor_map g t) \<longleftrightarrow> wf_tensor t"
  by (simp add: wf_tensor_def tensor_map_def)

lemma shape_tensor_map [simp]: "shape (tensor_map g t) = shape t"
  by (simp add: tensor_map_def)

lemma elems_tensor_map [simp]: "elems (tensor_map g t) = map g (elems t)"
  by (simp add: tensor_map_def)

lemma broadcast_to_tensor_map:
  assumes wf: "wf_tensor t" and f: "fits (pad_shape (length s) (shape t)) s"
  shows "broadcast_to s (tensor_map g t) = tensor_map g (broadcast_to s t)"
proof -
  let ?p = "pad_shape (length s) (shape t)"
  have "map g (elems t) ! ravel ?p (map2 (\<lambda>d i. if d = 1 then 0 else i) ?p (unravel s k))
      = g (elems t ! ravel ?p (map2 (\<lambda>d i. if d = 1 then 0 else i) ?p (unravel s k)))"
    if "k < prod_list s" for k
  proof -
    have "list_all2 (<) (unravel s k) s" by (rule unravel_bound[OF that])
    from ravel_bound[OF src_in_range[OF f this]]
    have "ravel ?p (map2 (\<lambda>d i. if d = 1 then 0 else i) ?p (unravel s k)) < length (elems t)"
      using wf by (simp add: wf_tensor_def)
    then show ?thesis by simp
  qed
  then show ?thesis
    by (simp add: broadcast_to_def tensor_map_def Let_def)
qed

section \<open>Facts about rounding\<close>

lemma rne_of_int [simp]: "rne (of_int m) = m"
  by (simp add: rne_def)

lemma rne_small: "0 \<le> q \<Longrightarrow> q < 1 / 2 \<Longrightarrow> rne q = 0"
proof -
  assume a: "0 \<le> q" "q < 1 / 2"
  then have "\<lfloor>q\<rfloor> = 0" by (simp add: floor_eq_iff)
  then show ?thesis using a by (simp add: rne_def)
qed

lemma rne_ge_floor: "\<lfloor>q\<rfloor> \<le> rne q"
  by (simp add: rne_def Let_def)

text \<open>A power of two within the exponent range is a floating-point number.\<close>

lemma binary32_pow2:
  assumes "- 126 \<le> n" "n \<le> 127"
  shows "binary32 (2 powr of_int n) = Fin (2 powr of_int n)"
proof -
  let ?r = "2 powr of_int n :: real"
  have e: "max \<lfloor>log 2 \<bar>?r\<bar>\<rfloor> (1 - 127) = n"
    using assms by simp
  have q: "?r / 2 powr of_int (n - int 24 + 1) = of_int (2 ^ 23)"
  proof -
    have "?r / 2 powr of_int (n - int 24 + 1) = 2 powr (of_int n - of_int (n - int 24 + 1))"
      by (simp add: powr_diff)
    also have "of_int n - of_int (n - int 24 + 1) = (real 23)" by simp
    also have "2 powr (real 23) = (2::real) ^ 23" by (rule powr_realpow) simp
    finally show ?thesis by simp
  qed
  have v: "of_int (rne (?r / 2 powr of_int (n - int 24 + 1))) * 2 powr of_int (n - int 24 + 1) = ?r"
  proof -
    have "of_int (rne (?r / 2 powr of_int (n - int 24 + 1))) = ?r / 2 powr of_int (n - int 24 + 1)"
      unfolding q rne_of_int by simp
    then show ?thesis by simp
  qed
  have "?r < 2 powr of_int (127 + 1)"
    using assms by (intro powr_less_mono) simp_all
  then have lt: "\<not> 2 powr of_int (127 + 1) \<le> \<bar>?r\<bar>"
    by simp
  show ?thesis
    unfolding binary32_def fp_round_def Let_def e v using lt by simp
qed

lemma binary32_zero [simp]: "binary32 0 = Fin 0"
  by (simp add: binary32_def fp_round_def)

lemma binary32_pow2_overflow:
  assumes "128 \<le> n"
  shows "binary32 (2 powr of_int n) = PInf"
proof -
  let ?r = "2 powr of_int n :: real"
  have e: "max \<lfloor>log 2 \<bar>?r\<bar>\<rfloor> (1 - 127) = n"
    using assms by simp
  have q: "?r / 2 powr of_int (n - int 24 + 1) = of_int (2 ^ 23)"
  proof -
    have "?r / 2 powr of_int (n - int 24 + 1) = 2 powr (of_int n - of_int (n - int 24 + 1))"
      by (simp add: powr_diff)
    also have "of_int n - of_int (n - int 24 + 1) = (real 23)" by simp
    also have "2 powr (real 23) = (2::real) ^ 23" by (rule powr_realpow) simp
    finally show ?thesis by simp
  qed
  have v: "of_int (rne (?r / 2 powr of_int (n - int 24 + 1))) * 2 powr of_int (n - int 24 + 1) = ?r"
  proof -
    have "of_int (rne (?r / 2 powr of_int (n - int 24 + 1))) = ?r / 2 powr of_int (n - int 24 + 1)"
      unfolding q rne_of_int by simp
    then show ?thesis by simp
  qed
  have "2 powr of_int (127 + 1) \<le> ?r"
    using assms by (intro powr_mono) simp_all
  then have ge: "2 powr of_int (127 + 1) \<le> \<bar>?r\<bar>"
    by simp
  have pos: "0 < ?r" and nz: "?r \<noteq> 0" by simp_all
  show ?thesis
    unfolding binary32_def fp_round_def Let_def e v using ge pos nz by (simp only: if_True if_False)
qed

lemma binary32_pow2_underflow:
  assumes "n \<le> - 151"
  shows "binary32 (2 powr of_int n) = Fin 0"
proof -
  let ?r = "2 powr of_int n :: real"
  have e: "max \<lfloor>log 2 \<bar>?r\<bar>\<rfloor> (1 - 127) = - 126"
    using assms by simp
  have u: "of_int (- 126 - int 24 + 1) = (- 149 :: real)" by simp
  define q where "q = ?r / 2 powr (- 149)"
  have "q = 2 powr (of_int n - (- 149))"
    unfolding q_def by (rule powr_diff[symmetric])
  also have "\<dots> \<le> 2 powr (- 2)"
    using assms by (intro powr_mono) simp_all
  also have "\<dots> = 1 / 4"
    by (simp add: powr_minus_divide)
  finally have "q \<le> 1 / 4" .
  then have "q < 1 / 2" by linarith
  moreover have "0 \<le> q" unfolding q_def by simp
  ultimately have "rne q = 0" by (intro rne_small)
  then have z: "rne (?r / 2 powr (- 149)) = 0" unfolding q_def .
  have nz: "?r \<noteq> 0" by simp
  show ?thesis
    unfolding binary32_def fp_round_def Let_def e u z using nz by simp
qed

text \<open>The same for \<open>pow2\<close>, and its arithmetic.\<close>

lemma binary32_exact: "- 126 \<le> n \<Longrightarrow> n \<le> 127 \<Longrightarrow> binary32 (pow2 n) = Fin (pow2 n)"
  unfolding pow2_def by (rule binary32_pow2)

lemma binary32_overflow: "128 \<le> n \<Longrightarrow> binary32 (pow2 n) = PInf"
  unfolding pow2_def by (rule binary32_pow2_overflow)

lemma binary32_underflow: "n \<le> - 151 \<Longrightarrow> binary32 (pow2 n) = Fin 0"
  unfolding pow2_def by (rule binary32_pow2_underflow)

lemma pow2_0: "pow2 0 = 1" and pow2_1: "pow2 1 = 2"
  by (simp_all add: pow2_def)

lemma pow2_pos [simp]: "0 < pow2 n" and pow2_nonzero [simp]: "pow2 n \<noteq> 0"
  and pow2_abs [simp]: "\<bar>pow2 n\<bar> = pow2 n"
  by (simp_all add: pow2_def)

lemma pow2_mult: "pow2 a * pow2 b = pow2 (a + b)"
  by (simp add: pow2_def powr_add)

lemma pow2_divide: "pow2 a / pow2 b = pow2 (a - b)"
  by (simp add: pow2_def powr_diff)

lemma pow2_square: "pow2 a powr 2 = pow2 (2 * a)"
  by (simp add: pow2_def powr_powr mult.commute)

lemma pow2_sqrt: "pow2 (2 * a) powr (1 / 2) = pow2 a"
  by (simp add: pow2_def powr_powr)

lemma pow2_diff_next: "pow2 (a + 1) - pow2 a = pow2 a"
  by (simp add: pow2_def powr_add)

lemma binary32_one [simp]: "binary32 1 = Fin 1"
  using binary32_exact[of 0] by (simp add: pow2_0)

lemma binary32_two [simp]: "binary32 2 = Fin 2"
  using binary32_exact[of 1] by (simp add: pow2_1)

text \<open>A number in the unit interval is rounded to a finite number.\<close>

lemma rne_le_floor: "rne q \<le> \<lfloor>q\<rfloor> + 1"
  by (simp add: rne_def Let_def)

lemma binary32_unit_finite:
  assumes "0 < r" "r \<le> 1"
  shows "\<exists>v. binary32 r = Fin v"
proof -
  define e where "e = max \<lfloor>log 2 \<bar>r\<bar>\<rfloor> (1 - 127)"
  define ulp :: real where "ulp = 2 powr of_int (e - int 24 + 1)"
  define v where "v = of_int (rne (r / ulp)) * ulp"
  have "log 2 \<bar>r\<bar> \<le> 0" using assms by simp
  then have "\<lfloor>log 2 \<bar>r\<bar>\<rfloor> \<le> 0" by (simp add: floor_le_zero)
  then have e0: "e \<le> 0" by (simp add: e_def)
  have up: "0 < ulp" by (simp add: ulp_def)
  have "of_int (e - int 24 + 1) \<le> (0 :: real)" using e0 by simp
  then have "ulp \<le> 2 powr 0" unfolding ulp_def by (intro powr_mono) simp_all
  then have u1: "ulp \<le> 1" by simp
  have q0: "0 \<le> r / ulp" using assms up by simp
  then have "0 \<le> \<lfloor>r / ulp\<rfloor>" by simp
  with rne_ge_floor[of "r / ulp"] have r0: "0 \<le> rne (r / ulp)" by linarith
  have "real_of_int (rne (r / ulp)) \<le> of_int (\<lfloor>r / ulp\<rfloor> + 1)"
    using rne_le_floor[of "r / ulp"] by (simp only: of_int_le_iff)
  also have "\<dots> \<le> r / ulp + 1" by simp
  finally have "v \<le> (r / ulp + 1) * ulp"
    unfolding v_def using up by (intro mult_right_mono) simp_all
  also have "\<dots> = r + ulp" using up by (simp add: field_simps)
  also have "\<dots> \<le> 2" using assms u1 by simp
  finally have v2: "v \<le> 2" .
  have v0: "0 \<le> v" unfolding v_def using r0 up by simp
  have "(2 :: real) = 2 powr 1" by simp
  also have "\<dots> < 2 powr of_int (127 + 1)" by (intro powr_less_mono) simp_all
  finally have "\<bar>v\<bar> < 2 powr of_int (127 + 1)" using v0 v2 by simp
  then have "binary32 r = Fin v"
    using assms(1) unfolding binary32_def fp_round_def Let_def
    by (simp only: e_def[symmetric] ulp_def[symmetric] v_def[symmetric]) simp
  then show ?thesis by (rule exI)
qed

text \<open>With exact rounding a sum of finite numbers is their sum.\<close>

lemma fp_sum_Fin_aux: "foldl (fp_add Fin) (Fin a) (map Fin rs) = Fin (a + sum_list rs)"
  by (induction rs arbitrary: a) (simp_all add: add.assoc)

lemma fp_sum_Fin: "fp_sum Fin (map Fin rs) = Fin (sum_list rs)"
  by (simp add: fp_sum_def fp_sum_Fin_aux)

section \<open>Properties of the basis expansion\<close>

lemma init_modes_list:
  assumes "NeuralSpectralBlock2d_init w nb ps nt = Inr blk"
  shows "modes_list blk = map (\<lambda>i. (1 / real_of_int nb) * real i) [0..<nat nb] \<and> 0 < nb"
  using assms by (auto simp: NeuralSpectralBlock2d_init_def split: if_splits)

lemma basis_features_length: "length (basis_features modes x) = 2 * length modes"
  by (simp add: basis_features_def)

lemma basis_features_first:
  assumes "0 < n"
  shows "basis_features (map (\<lambda>i. c * real i) [0..<n]) x ! 0 = 0"
    and "basis_features (map (\<lambda>i. c * real i) [0..<n]) x ! n = 1"
proof -
  let ?ms = "map (\<lambda>i. c * real i) [0..<n]"
  have len: "length (map (\<lambda>m. sin (m * x * pi)) ?ms) = n" by simp
  have "basis_features ?ms x ! 0 = map (\<lambda>m. sin (m * x * pi)) ?ms ! 0"
    unfolding basis_features_def using assms by (simp add: nth_append)
  also have "\<dots> = 0" using assms by simp
  finally show "basis_features ?ms x ! 0 = 0" .
  have "basis_features ?ms x ! n = map (\<lambda>m. cos (m * x * pi)) ?ms ! 0"
    unfolding basis_features_def using len by (simp add: nth_append)
  also have "\<dots> = 1" using assms by simp
  finally show "basis_features ?ms x ! n = 1" .
qed

text \<open>
  Claim C2, as the code has it. With \<open>num_basis = 1\<close> the only frequency is
  \<open>(1.0 / 1.0) * 0 = 0\<close>, so every token value is expanded to the constant pair
  \<open>[sin 0, cos 0] = [0, 1]\<close>, not to \<open>[sin (pi x), cos (pi x)]\<close>. The expansion is a function
  of the token value and the block's frequency list alone.
\<close>

theorem get_basis_num_basis_one:
  assumes "NeuralSpectralBlock2d_init w 1 ps nt = Inr blk"
  shows "get_basis blk x = map (map (map (\<lambda>v. [0, 1]))) x"
proof -
  have "modes_list blk = [0]"
    using init_modes_list[OF assms] by simp
  then show ?thesis
    by (simp add: get_basis_def basis_features_def)
qed

theorem get_basis_num_basis_one_witness:
  "NeuralSpectralBlock2d_init 8 1 [3, 3] 4
     = Inr \<lparr>patch_size = [3, 3], width = 8, num_basis = 1, modes_list = [0],
            head = 8, num_token = 4\<rparr>
   \<and> get_basis \<lparr>patch_size = [3, 3], width = 8, num_basis = 1, modes_list = [0],
            head = 8, num_token = 4\<rparr> [[[1 / 2, 3]]] = [[[[0, 1], [0, 1]]]]"
proof -
  have i: "NeuralSpectralBlock2d_init 8 1 [3, 3] 4
     = Inr \<lparr>patch_size = [3, 3], width = 8, num_basis = 1, modes_list = [0],
            head = 8, num_token = 4\<rparr>"
    by (simp add: NeuralSpectralBlock2d_init_def)
  show ?thesis
    using i get_basis_num_basis_one[OF i, of "[[[1 / 2, 3]]]"] by simp
qed

text \<open>
  Claim C2 as stated fails: at the token value \<open>1/2\<close> the block built with
  \<open>num_basis = 1\<close> returns \<open>[0, 1]\<close>, while \<open>[sin (pi / 2), cos (pi / 2)] = [1, 0]\<close>.
\<close>

theorem get_basis_num_basis_one_counterexample:
  "map_sum id (\<lambda>blk. get_basis blk [[[1 / 2]]]) (NeuralSpectralBlock2d_init 8 1 [3, 3] 4)
     \<noteq> Inr [[[[sin (pi * (1 / 2)), cos (pi * (1 / 2))]]]]"
  by (simp add: NeuralSpectralBlock2d_init_def get_basis_def basis_features_def)

text \<open>
  Claim C10. For every block that was constructed (so \<open>num_basis \<ge> 1\<close>) and every token
  tensor, each expanded feature vector has \<open>2 * num_basis\<close> entries, its first sine
  feature (position 0) is 0 and its first cosine feature (position \<open>num_basis\<close>) is 1,
  whatever the token value.
\<close>

theorem get_basis_lowest_frequency:
  assumes "NeuralSpectralBlock2d_init w nb ps nt = Inr blk"
    and "f \<in> set (concat (concat (get_basis blk x)))"
  shows "length f = 2 * nat nb \<and> f ! 0 = 0 \<and> f ! nat nb = 1"
proof -
  from init_modes_list[OF assms(1)]
  have ms: "modes_list blk = map (\<lambda>i. (1 / real_of_int nb) * real i) [0..<nat nb]"
    and pos: "0 < nat nb" by simp_all
  from assms(2) obtain v where f: "f = basis_features (modes_list blk) v"
    by (auto simp: get_basis_def)
  have "length f = 2 * nat nb"
    unfolding f ms by (simp add: basis_features_length)
  moreover have "f ! 0 = 0"
    unfolding f ms by (rule basis_features_first(1)[OF pos])
  moreover have "f ! nat nb = 1"
    unfolding f ms by (rule basis_features_first(2)[OF pos])
  ultimately show ?thesis by simp
qed

theorem get_basis_lowest_frequency_witness:
  "NeuralSpectralBlock2d_init 8 2 [3, 3] 4
     = Inr \<lparr>patch_size = [3, 3], width = 8, num_basis = 2, modes_list = [0, 1 / 2],
            head = 8, num_token = 4\<rparr>
   \<and> [0, 1, 1, 0] \<in> set (concat (concat (get_basis
        \<lparr>patch_size = [3, 3], width = 8, num_basis = 2, modes_list = [0, 1 / 2],
            head = 8, num_token = 4\<rparr> [[[1]]])))
   \<and> length [0, 1, 1, 0 :: real] = 2 * nat 2 \<and> [0, 1, 1, 0 :: real] ! 0 = 0
   \<and> [0, 1, 1, 0 :: real] ! nat 2 = 1"
proof -
  have up: "[0..<2] = [0, Suc 0]"
    by (simp add: numeral_2_eq_2)
  have i: "NeuralSpectralBlock2d_init 8 2 [3, 3] 4
     = Inr \<lparr>patch_size = [3, 3], width = 8, num_basis = 2, modes_list = [0, 1 / 2],
            head = 8, num_token = 4\<rparr>"
    by (simp add: NeuralSpectralBlock2d_init_def up)
  have m: "[0, 1, 1, 0] \<in> set (concat (concat (get_basis
        \<lparr>patch_size = [3, 3], width = 8, num_basis = 2, modes_list = [0, 1 / 2],
            head = 8, num_token = 4\<rparr> [[[1]]])))"
    by (simp add: get_basis_def basis_features_def)
  show ?thesis
    using i m get_basis_lowest_frequency[OF i m] by simp
qed

section \<open>Properties of the normalizer\<close>

lemma tensor_map2_value:
  assumes "broadcast_shapes (shape a) (shape b) = Inr s"
  shows "tensor_map2 f a b
     = Inr \<lparr>shape = s, elems = map2 f (elems (broadcast_to s a)) (elems (broadcast_to s b))\<rparr>"
  by (simp add: tensor_map2_def assms)

text \<open>
  The shape of a round trip through four broadcast operations against tensors of one
  shape: it is decided elementwise.
\<close>

lemma roundtrip_elementwise:
  fixes x :: "'a tensor" and mu sd :: "'a tensor"
  assumes wx: "wf_tensor x" and wm: "wf_tensor mu" and ws: "wf_tensor sd"
    and sh: "shape sd = shape mu"
    and bc: "broadcast_shapes (shape x) (shape mu) = Inr s"
    and pw: "\<And>a m v. a \<in> set (elems x) \<Longrightarrow> m \<in> set (elems mu) \<Longrightarrow> v \<in> set (elems sd)
               \<Longrightarrow> P (M (D (S a m) (A v)) (A v)) m = a"
  shows "ebind (ebind (tensor_map2 S x mu) (\<lambda>c. tensor_map2 D c (tensor_map A sd)))
           (\<lambda>y. ebind (tensor_map2 M y (tensor_map A sd)) (\<lambda>c. tensor_map2 P c mu))
         = Inr (broadcast_to s x)"
proof -
  let ?N = "prod_list s"
  let ?xb = "elems (broadcast_to s x)" and ?mb = "elems (broadcast_to s mu)"
    and ?sb = "elems (broadcast_to s sd)"
  note fx = broadcast_shapes_fits[OF bc]
  have fm: "fits (pad_shape (length s) (shape mu)) s" by (rule fx(3))
  have fsd: "fits (pad_shape (length s) (shape sd)) s" unfolding sh by (rule fx(3))
  have lm: "length (shape mu) \<le> length s" using fx(1) by simp
  have ab: "broadcast_shapes s (shape mu) = Inr s"
    by (rule broadcast_shapes_absorb[OF fm lm])
  have den: "broadcast_to s (tensor_map A sd) = tensor_map A (broadcast_to s sd)"
    by (rule broadcast_to_tensor_map[OF ws fsd])
  define c1 where "c1 = \<lparr>shape = s, elems = map2 S ?xb ?mb\<rparr>"
  define en where "en = \<lparr>shape = s, elems = map2 D (elems c1) (map A ?sb)\<rparr>"
  define c2 where "c2 = \<lparr>shape = s, elems = map2 M (elems en) (map A ?sb)\<rparr>"
  define r where "r = \<lparr>shape = s, elems = map2 P (elems c2) ?mb\<rparr>"
  have w1: "wf_tensor c1" "shape c1 = s" by (simp_all add: c1_def wf_tensor_def)
  have w2: "wf_tensor en" "shape en = s" by (simp_all add: en_def c1_def wf_tensor_def)
  have w3: "wf_tensor c2" "shape c2 = s" by (simp_all add: c2_def en_def c1_def wf_tensor_def)
  have s1: "tensor_map2 S x mu = Inr c1"
    unfolding c1_def by (rule tensor_map2_value[OF bc])
  have s2: "tensor_map2 D c1 (tensor_map A sd) = Inr en"
    using tensor_map2_value[of c1 "tensor_map A sd" s D] ab broadcast_to_same[OF w1(1)]
    by (simp add: w1 sh den en_def)
  have s3: "tensor_map2 M en (tensor_map A sd) = Inr c2"
    using tensor_map2_value[of en "tensor_map A sd" s M] ab broadcast_to_same[OF w2(1)]
    by (simp add: w2 sh den c2_def)
  have s4: "tensor_map2 P c2 mu = Inr r"
    using tensor_map2_value[of c2 mu s P] ab broadcast_to_same[OF w3(1)]
    by (simp add: w3 r_def)
  have "elems r = ?xb"
  proof (rule nth_equalityI)
    show "length (elems r) = length ?xb"
      by (simp add: r_def c2_def en_def c1_def)
  next
    fix k assume "k < length (elems r)"
    then have k: "k < ?N" by (simp add: r_def c2_def en_def c1_def)
    from broadcast_to_nth[OF wx fx(2) k] have a: "?xb ! k \<in> set (elems x)" by force
    from broadcast_to_nth[OF wm fm k] have m: "?mb ! k \<in> set (elems mu)" by force
    from broadcast_to_nth[OF ws fsd k] have v: "?sb ! k \<in> set (elems sd)" by force
    have "elems r ! k = P (M (D (S (?xb ! k) (?mb ! k)) (A (?sb ! k))) (A (?sb ! k))) (?mb ! k)"
      using k by (simp add: r_def c2_def en_def c1_def)
    also have "\<dots> = ?xb ! k" by (rule pw[OF a m v])
    finally show "elems r ! k = ?xb ! k" .
  qed
  then have "r = broadcast_to s x"
    by (simp add: r_def tensor_eq_iff)
  then show ?thesis
    by (simp add: s1 s2 s3 s4)
qed

lemma is_fin_iff: "is_fin a \<longleftrightarrow> (\<exists>r. a = Fin r)"
  by (cases a) simp_all

lemma all_fin_map: "list_all is_fin xs \<Longrightarrow> \<exists>rs. xs = map Fin rs"
proof (induction xs)
  case Nil
  then show ?case by simp
next
  case (Cons a xs)
  then obtain r rs where "a = Fin r" "xs = map Fin rs"
    by (auto simp: is_fin_iff)
  then have "a # xs = map Fin (r # rs)" by simp
  then show ?case by (rule exI)
qed

lemma column_fin:
  assumes "list_all is_fin xs" and "length xs = n * m" and "j < m"
  shows "\<exists>rs. column n m xs j = map Fin rs"
proof -
  have "list_all is_fin (column n m xs j)"
    unfolding column_def list_all_iff
  proof
    fix v assume "v \<in> set (map (\<lambda>i. xs ! (i * m + j)) [0..<n])"
    then obtain i where i: "i < n" and v: "v = xs ! (i * m + j)" by auto
    have "i * m + j < Suc i * m" using assms(3) by simp
    also have "\<dots> \<le> n * m" using i by (intro mult_le_mono1) simp
    finally have "i * m + j < length xs" using assms(2) by simp
    with assms(1) show "is_fin v" unfolding v by (simp add: list_all_iff)
  qed
  then show ?thesis by (rule all_fin_map)
qed

text \<open>
  In exact arithmetic a fit on at least two finite samples gives finite means and
  finite, non-negative standard deviations.
\<close>

lemma init_exact:
  assumes fit: "UnitGaussianNormalizer_init Fin x0 e = Inr nrm"
    and fin: "finite_tensor x0" and sh: "shape x0 = n # fs" and n: "2 \<le> n"
  shows "shape (mean nrm) = fs" "shape (std nrm) = fs" "eps nrm = e"
    "wf_tensor (mean nrm)" "wf_tensor (std nrm)"
    "\<forall>v\<in>set (elems (mean nrm)). \<exists>r. v = Fin r"
    "\<forall>v\<in>set (elems (std nrm)). \<exists>r\<ge>0. v = Fin r"
proof -
  let ?m = "prod_list fs"
  from fin have wf: "wf_tensor x0" and af: "list_all is_fin (elems x0)"
    by (simp_all add: finite_tensor_def)
  have len: "length (elems x0) = n * ?m"
    using wf sh by (simp add: wf_tensor_def)
  define mu where "mu = map (\<lambda>j. fp_div Fin (fp_sum Fin (column n ?m (elems x0) j)) (Fin (real n)))
                      [0..<?m]"
  define sd where "sd = map (\<lambda>j. fp_abs_pow Fin (1 / 2)
                          (fp_div Fin
                             (fp_sum Fin (map (\<lambda>v. fp_mul Fin (fp_sub Fin v (mu ! j))
                                                              (fp_sub Fin v (mu ! j)))
                                            (column n ?m (elems x0) j)))
                             (Fin (real (n - 1)))))
                      [0..<?m]"
  from fit have nrm: "nrm = \<lparr>mean = \<lparr>shape = fs, elems = mu\<rparr>, std = \<lparr>shape = fs, elems = sd\<rparr>,
                   eps = e\<rparr>"
    using wf by (simp add: UnitGaussianNormalizer_init_def sh Let_def mu_def sd_def)
  show "shape (mean nrm) = fs" "shape (std nrm) = fs" "eps nrm = e"
    "wf_tensor (mean nrm)" "wf_tensor (std nrm)"
    by (simp_all add: nrm wf_tensor_def mu_def sd_def)
  have muj: "\<exists>r. mu ! j = Fin r" if "j < ?m" for j
  proof -
    from column_fin[OF af len that] obtain rs where "column n ?m (elems x0) j = map Fin rs" ..
    then show ?thesis
      using that n by (simp add: mu_def fp_sum_Fin)
  qed
  show "\<forall>v\<in>set (elems (mean nrm)). \<exists>r. v = Fin r"
  proof
    fix v assume "v \<in> set (elems (mean nrm))"
    then obtain j where "j < ?m" "v = mu ! j"
      by (auto simp: nrm in_set_conv_nth mu_def)
    with muj show "\<exists>r. v = Fin r" by auto
  qed
  show "\<forall>v\<in>set (elems (std nrm)). \<exists>r\<ge>0. v = Fin r"
  proof
    fix v assume "v \<in> set (elems (std nrm))"
    then obtain j where j: "j < ?m" and v: "v = sd ! j"
      by (auto simp: nrm in_set_conv_nth sd_def)
    from column_fin[OF af len j] obtain rs where c: "column n ?m (elems x0) j = map Fin rs" ..
    from muj[OF j] obtain r where r: "mu ! j = Fin r" ..
    have "map (\<lambda>v. fp_mul Fin (fp_sub Fin v (mu ! j)) (fp_sub Fin v (mu ! j))) (map Fin rs)
        = map Fin (map (\<lambda>a. (a - r) * (a - r)) rs)"
      by (simp add: r fp_sub_def)
    then have "sd ! j = Fin (\<bar>sum_list (map (\<lambda>a. (a - r) * (a - r)) rs) / real (n - 1)\<bar> powr (1 / 2))"
      using j n unfolding sd_def by (simp add: c fp_sum_Fin del: map_map)
    then show "\<exists>r\<ge>0. v = Fin r"
      unfolding v by (intro exI conjI) (auto intro: powr_ge_zero)
  qed
qed

lemma exact_pointwise:
  assumes "0 \<le> s" "0 < e"
  shows "fp_add Fin (fp_mul Fin (fp_div Fin (fp_sub Fin (Fin a) (Fin m)) (fp_add Fin (Fin s) (Fin e)))
           (fp_add Fin (Fin s) (Fin e))) (Fin m) = Fin a"
  using assms by (simp add: fp_sub_def)

text \<open>
  Claim C4, as the code has it. In exact arithmetic, for a normalizer fitted on at least
  two finite samples (\<open>std \<ge> 0\<close>, also 0 on a constant channel) with \<open>eps > 0\<close>, and
  every finite tensor \<open>x\<close> whose shape is broadcast-compatible with the fitted mean and
  std, \<open>decode (encode x)\<close> is \<open>x\<close> expanded to the common shape: \<open>x\<close> itself when that
  shape is its own.
\<close>

theorem normalizer_roundtrip:
  assumes fit: "UnitGaussianNormalizer_init Fin x0 e = Inr nrm"
    and x0: "finite_tensor x0" "shape x0 = n # fs" "2 \<le> n"
    and e: "0 < e"
    and x: "finite_tensor x"
    and bc: "broadcast_shapes (shape x) fs = Inr s"
  shows "ebind (encode Fin nrm x) (decode Fin nrm) = Inr (broadcast_to s x)
    \<and> (s = shape x \<longrightarrow> ebind (encode Fin nrm x) (decode Fin nrm) = Inr x)"
proof -
  note i = init_exact[OF fit x0]
  from x have wx: "wf_tensor x" and fx: "list_all is_fin (elems x)"
    by (simp_all add: finite_tensor_def)
  have bc': "broadcast_shapes (shape x) (shape (mean nrm)) = Inr s"
    using bc i(1) by simp
  have sh: "shape (std nrm) = shape (mean nrm)" using i(1,2) by simp
  have "ebind (ebind (tensor_map2 (fp_sub Fin) x (mean nrm))
              (\<lambda>c. tensor_map2 (fp_div Fin) c (tensor_map (\<lambda>s. fp_add Fin s (Fin e)) (std nrm))))
           (\<lambda>y. ebind (tensor_map2 (fp_mul Fin) y (tensor_map (\<lambda>s. fp_add Fin s (Fin e)) (std nrm)))
              (\<lambda>c. tensor_map2 (fp_add Fin) c (mean nrm)))
         = Inr (broadcast_to s x)"
  proof (rule roundtrip_elementwise[OF wx i(4) i(5) sh bc'])
    fix a m v
    assume "a \<in> set (elems x)" "m \<in> set (elems (mean nrm))" "v \<in> set (elems (std nrm))"
    then have "\<exists>r. a = Fin r" "\<exists>r. m = Fin r" "\<exists>r\<ge>0. v = Fin r"
      using fx i(6,7) by (simp_all add: list_all_iff is_fin_iff)
    then obtain a' m' v' where "a = Fin a'" "m = Fin m'" "v = Fin v'" "0 \<le> v'"
      by blast
    then show "fp_add Fin (fp_mul Fin (fp_div Fin (fp_sub Fin a m) (fp_add Fin v (Fin e)))
           (fp_add Fin v (Fin e))) m = a"
      using exact_pointwise[OF _ e] by simp
  qed
  then have main: "ebind (encode Fin nrm x) (decode Fin nrm) = Inr (broadcast_to s x)"
    by (simp add: encode_def decode_def[abs_def] i(3))
  moreover have "broadcast_to s x = x" if "s = shape x"
    unfolding that by (rule broadcast_to_same[OF wx])
  ultimately show ?thesis by simp
qed

lemma upt_2: "[0..<2] = [0, 1]"
  by (simp add: numeral_2_eq_2)

lemmas tensor_eval_defs =
  tensor_map2_def tensor_map_def broadcast_shapes_def broadcast_to_def pad_shape_def Let_def
  column_def fp_sum_def fp_sub_def upt_2

lemma init_succeeds:
  "wf_tensor x \<Longrightarrow> \<exists>nrm. UnitGaussianNormalizer_init rnd x e = Inr nrm"
  by (simp add: UnitGaussianNormalizer_init_def Let_def)

theorem normalizer_roundtrip_witness:
  "ebind (UnitGaussianNormalizer_init Fin \<lparr>shape = [2, 2], elems = [Fin 1, Fin 1, Fin 1, Fin 3]\<rparr>
            (1 / 100000))
     (\<lambda>nrm. ebind (encode Fin nrm \<lparr>shape = [1, 2], elems = [Fin 5, Fin 7]\<rparr>) (decode Fin nrm))
     = Inr \<lparr>shape = [1, 2], elems = [Fin 5, Fin 7]\<rparr>"
proof -
  let ?tr = "\<lparr>shape = [2, 2], elems = [Fin 1, Fin 1, Fin 1, Fin 3]\<rparr>"
  let ?x = "\<lparr>shape = [1, 2], elems = [Fin 5, Fin 7]\<rparr>"
  have "wf_tensor ?tr" by (simp add: wf_tensor_def)
  from init_succeeds[OF this]
  obtain nrm where fit: "UnitGaussianNormalizer_init Fin ?tr (1 / 100000) = Inr nrm"
    by blast
  have x01: "finite_tensor ?tr"
    by (simp add: finite_tensor_def wf_tensor_def)
  have x02: "shape ?tr = 2 # [2]"
    by simp
  have x03: "(2 :: nat) \<le> 2"
    by simp
  note x0 = x01 x02 x03
  have e: "(0 :: real) < 1 / 100000" by simp
  have x: "finite_tensor ?x" by (simp add: finite_tensor_def wf_tensor_def)
  have bc: "broadcast_shapes (shape ?x) [2] = Inr [1, 2]"
    by (simp add: broadcast_shapes_def pad_shape_def)
  have sx: "[1, 2] = shape ?x" by simp
  from normalizer_roundtrip[OF fit x0 e x bc, THEN conjunct2] sx
  have "ebind (encode Fin nrm ?x) (decode Fin nrm) = Inr ?x" by (rule mp)
  then show ?thesis by (simp only: fit ebind_Inr)
qed

text \<open>
  An input of shape (1, 1, 2) against the statistics of shape (2, 2): the round trip
  returns it expanded to (1, 2, 2).
\<close>

lemma normalizer_roundtrip_expanded:
  "ebind (UnitGaussianNormalizer_init Fin
            \<lparr>shape = [2, 2, 2],
               elems = [Fin 1, Fin 2, Fin 3, Fin 4, Fin 1, Fin 0, Fin 5, Fin 8]\<rparr> (1 / 100000))
     (\<lambda>nrm. ebind (encode Fin nrm \<lparr>shape = [1, 1, 2], elems = [Fin 5, Fin 7]\<rparr>) (decode Fin nrm))
     = Inr \<lparr>shape = [1, 2, 2], elems = [Fin 5, Fin 7, Fin 5, Fin 7]\<rparr>"
proof -
  let ?tr = "\<lparr>shape = [2, 2, 2],
               elems = [Fin 1, Fin 2, Fin 3, Fin 4, Fin 1, Fin 0, Fin 5, Fin 8]\<rparr>"
  let ?y = "\<lparr>shape = [1, 1, 2], elems = [Fin 5, Fin 7]\<rparr>"
  have "wf_tensor ?tr" by (simp add: wf_tensor_def)
  from init_succeeds[OF this]
  obtain nrm where fit: "UnitGaussianNormalizer_init Fin ?tr (1 / 100000) = Inr nrm"
    by blast
  have tr: "finite_tensor ?tr" "shape ?tr = 2 # [2, 2]" "(2 :: nat) \<le> 2"
    by (simp_all add: finite_tensor_def wf_tensor_def)
  have e: "(0 :: real) < 1 / 100000" by simp
  have y: "finite_tensor ?y" by (simp add: finite_tensor_def wf_tensor_def)
  have bc: "broadcast_shapes (shape ?y) [2, 2] = Inr [1, 2, 2]"
    by (simp add: broadcast_shapes_def pad_shape_def)
  have ex: "broadcast_to [1, 2, 2] ?y = \<lparr>shape = [1, 2, 2], elems = [Fin 5, Fin 7, Fin 5, Fin 7]\<rparr>"
  proof -
    have u: "[0..<4] = [0, 1, 2, 3]"
      by (simp add: upt_conv_Cons)
    show ?thesis
      by (simp add: broadcast_to_def pad_shape_def Let_def u)
  qed
  from normalizer_roundtrip[OF fit tr e y bc, THEN conjunct1]
  show ?thesis by (simp only: fit ebind_Inr ex)
qed

text \<open>
  Claim C4 as stated fails in the arithmetic of the program. In single precision, for
  the normalizer fitted on two samples 0 (mean 0, variance 0) with \<open>eps = 2\<^sup>-\<^sup>2\<^sup>0\<close>, the
  finite number \<open>2\<^sup>1\<^sup>2\<^sup>0\<close> is encoded to \<open>2\<^sup>1\<^sup>2\<^sup>0 / 2\<^sup>-\<^sup>2\<^sup>0\<close>, which overflows to \<open>inf\<close>, and decoded
  to \<open>inf\<close>.
\<close>

theorem normalizer_roundtrip_counterexample:
  "ebind (UnitGaussianNormalizer_init binary32 \<lparr>shape = [2, 1], elems = [Fin 0, Fin 0]\<rparr>
            (pow2 (- 20)))
     (\<lambda>nrm. ebind (encode binary32 nrm \<lparr>shape = [1, 1], elems = [Fin (pow2 120)]\<rparr>)
               (decode binary32 nrm))
     = Inr \<lparr>shape = [1, 1], elems = [PInf]\<rparr>"
proof -
  have init: "UnitGaussianNormalizer_init binary32 \<lparr>shape = [2, 1], elems = [Fin 0, Fin 0]\<rparr>
            (pow2 (- 20))
      = Inr \<lparr>mean = \<lparr>shape = [1], elems = [Fin 0]\<rparr>, std = \<lparr>shape = [1], elems = [Fin 0]\<rparr>,
             eps = pow2 (- 20)\<rparr>"
    by (simp add: UnitGaussianNormalizer_init_def wf_tensor_def tensor_eval_defs)
  have enc: "encode binary32 \<lparr>mean = \<lparr>shape = [1], elems = [Fin 0]\<rparr>,
                 std = \<lparr>shape = [1], elems = [Fin 0]\<rparr>, eps = pow2 (- 20)\<rparr>
               \<lparr>shape = [1, 1], elems = [Fin (pow2 120)]\<rparr>
      = Inr \<lparr>shape = [1, 1], elems = [PInf]\<rparr>"
    by (simp add: encode_def tensor_eval_defs binary32_exact binary32_overflow pow2_divide)
  have dec: "decode binary32 \<lparr>mean = \<lparr>shape = [1], elems = [Fin 0]\<rparr>,
                 std = \<lparr>shape = [1], elems = [Fin 0]\<rparr>, eps = pow2 (- 20)\<rparr>
               \<lparr>shape = [1, 1], elems = [PInf]\<rparr>
      = Inr \<lparr>shape = [1, 1], elems = [PInf]\<rparr>"
    by (simp add: decode_def tensor_eval_defs binary32_exact)
  show ?thesis
    by (simp only: init ebind_Inr enc dec)
qed

section \<open>Properties of the training loader\<close>

lemma batched_Nil [simp]: "batched bs [] = []"
  by (simp add: batched.simps)

lemma concat_batched: "0 < bs \<Longrightarrow> concat (batched bs xs) = xs"
proof (induction bs xs rule: batched.induct)
  case (1 bs xs)
  show ?case
  proof (cases "xs = []")
    case True
    then show ?thesis by simp
  next
    case False
    with 1 have "concat (batched bs (drop bs xs)) = drop bs xs" by simp
    with False 1(2) show ?thesis
      by (subst batched.simps) simp
  qed
qed

lemma lengths_batched:
  "0 < bs \<Longrightarrow> map length (batched bs xs)
     = replicate (length xs div bs) bs @ (if length xs mod bs = 0 then [] else [length xs mod bs])"
proof (induction bs xs rule: batched.induct)
  case (1 bs xs)
  show ?case
  proof (cases "xs = []")
    case True
    then show ?thesis by simp
  next
    case False
    with 1 have IH: "map length (batched bs (drop bs xs))
       = replicate (length (drop bs xs) div bs) bs
         @ (if length (drop bs xs) mod bs = 0 then [] else [length (drop bs xs) mod bs])"
      by simp
    have unf: "batched bs xs = take bs xs # batched bs (drop bs xs)"
      using False 1(2) by (subst batched.simps) simp
    show ?thesis
    proof (cases "bs \<le> length xs")
      case True
      then have d: "length xs div bs = Suc ((length xs - bs) div bs)"
        using 1(2) by (simp add: le_div_geq)
      have m: "(length xs - bs) mod bs = length xs mod bs"
        using True by (simp add: le_mod_geq)
      show ?thesis
        using True by (simp add: unf IH d m min_absorb2)
    next
      case False
      then have "length xs < bs" by simp
      moreover from this have "drop bs xs = []" by simp
      ultimately show ?thesis
        using \<open>xs \<noteq> []\<close> by (simp add: unf)
    qed
  qed
qed

lemma train_loader_fields:
  assumes "train_loader xs ys bs = Inr ld"
  shows "dataset ld = zip xs ys" "batch_size ld = nat bs" "0 < bs" "shuffle ld" "\<not> drop_last ld"
    "length xs = length ys"
  using assms
  by (auto simp: train_loader_def TensorDataset_def DataLoader_init_def split: if_splits)

text \<open>
  The training loader is built without \<open>drop_last\<close>, so it keeps the incomplete trailing
  batch: for every order of the samples (a permutation of their indices) one pass yields
  every sample once, in full batches followed, when the batch size does not divide the
  sample count, by one batch of the remainder. All batches have \<open>batch_size\<close> samples
  exactly when the batch size divides the sample count.
\<close>

lemma train_loader_batches:
  assumes ld: "train_loader xs ys bs = Inr ld"
    and ord: "mset order = mset [0..<length xs]"
  shows "mset (concat (DataLoader_iter ld order)) = mset (zip xs ys)"
    and "map length (DataLoader_iter ld order)
        = replicate (length xs div nat bs) (nat bs)
          @ (if length xs mod nat bs = 0 then [] else [length xs mod nat bs])"
    and "list_all (\<lambda>b. length b = nat bs) (DataLoader_iter ld order) \<longleftrightarrow> nat bs dvd length xs"
proof -
  note f = train_loader_fields[OF ld]
  have pos: "0 < nat bs" using f(3) by simp
  have lo: "length order = length xs"
    using mset_eq_length[OF ord] by simp
  have it: "DataLoader_iter ld order = batched (nat bs) (map (\<lambda>i. zip xs ys ! i) order)"
    using f by (simp add: DataLoader_iter_def)
  have c: "concat (DataLoader_iter ld order) = map (\<lambda>i. zip xs ys ! i) order"
    unfolding it by (rule concat_batched[OF pos])
  have "mset (map (\<lambda>i. zip xs ys ! i) order) = mset (map (\<lambda>i. zip xs ys ! i) [0..<length xs])"
    unfolding mset_map by (simp only: ord)
  also have "map (\<lambda>i. zip xs ys ! i) [0..<length xs] = zip xs ys"
    using f(6) map_nth[of "zip xs ys"] by simp
  finally show "mset (concat (DataLoader_iter ld order)) = mset (zip xs ys)"
    unfolding c .
  show l: "map length (DataLoader_iter ld order)
        = replicate (length xs div nat bs) (nat bs)
          @ (if length xs mod nat bs = 0 then [] else [length xs mod nat bs])"
    unfolding it using lengths_batched[OF pos, of "map (\<lambda>i. zip xs ys ! i) order"] lo by simp
  have "list_all (\<lambda>b. length b = nat bs) (DataLoader_iter ld order)
      \<longleftrightarrow> (\<forall>n\<in>set (map length (DataLoader_iter ld order)). n = nat bs)"
    by (auto simp: list_all_iff)
  also have "\<dots> \<longleftrightarrow> nat bs dvd length xs"
  proof (cases "length xs mod nat bs = 0")
    case True
    then show ?thesis unfolding l by (auto simp: mod_eq_0_iff_dvd)
  next
    case False
    moreover have "length xs mod nat bs < nat bs" using pos by simp
    ultimately show ?thesis unfolding l by (auto simp: mod_eq_0_iff_dvd)
  qed
  finally show "list_all (\<lambda>b. length b = nat bs) (DataLoader_iter ld order)
      \<longleftrightarrow> nat bs dvd length xs" .
qed

text \<open>
  Claim C8. The claim fails on the code: with five training samples and a batch size of
  2, the training loader yields batches of 2, 2 and 1 samples (the incomplete trailing
  batch is not discarded), and the training loop, whose
  \<open>reshape(batch_size, s1, s2)\<close> needs a full batch, raises on the third batch.
\<close>

theorem train_epoch_partial_batch:
  "map_sum id (\<lambda>ld. map length (DataLoader_iter ld [3, 0, 4, 1, 2]))
     (train_loader [10, 11, 12, 13, 14 :: int] [20, 21, 22, 23, 24 :: int] 2) = Inr [2, 2, 1]
   \<and> ebind (train_loader [10, 11, 12, 13, 14 :: int] [20, 21, 22, 23, 24 :: int] 2)
       (\<lambda>ld. train_epoch ld [3, 0, 4, 1, 2] 5 85 85 1 (\<lambda>b. Inr 1)) = Inl RuntimeError"
  by (simp add: train_loader_def TensorDataset_def DataLoader_init_def DataLoader_iter_def
      batched.simps train_epoch_def)

section \<open>Properties of the attention weights\<close>

lemma emap_total: "emap (\<lambda>x. Inr (f x)) xs = Inr (map f xs)"
  by (induction xs) simp_all

lemma emap_cong_Inr:
  assumes "\<And>x. x \<in> set xs \<Longrightarrow> f x = Inr (g x)"
  shows "emap f xs = Inr (map g xs)"
  using assms by (induction xs) simp_all

lemma contract_same_length:
  "length a = length b \<Longrightarrow> contract a b = Inr (\<Sum>(u, v)\<leftarrow>zip a b. u * v)"
  by (simp add: contract_def broadcast_def)

lemma einsum_lc_sc_rect:
  assumes "\<forall>ql\<in>set q. length ql = c" and "\<forall>ks\<in>set k. length ks = c"
  shows "einsum_lc_sc q k = Inr (map (\<lambda>ql. map (\<lambda>ks. \<Sum>(u, v)\<leftarrow>zip ql ks. u * v) k) q)"
  unfolding einsum_lc_sc_def
proof (rule emap_cong_Inr)
  fix ql assume "ql \<in> set q"
  with assms have "\<And>ks. ks \<in> set k \<Longrightarrow> contract ql ks = Inr (\<Sum>(u, v)\<leftarrow>zip ql ks. u * v)"
    by (simp add: contract_same_length)
  then show "emap (contract ql) k = Inr (map (\<lambda>ks. \<Sum>(u, v)\<leftarrow>zip ql ks. u * v) k)"
    by (rule emap_cong_Inr)
qed

lemma sum_list_divide: "(\<Sum>x\<leftarrow>xs. f x / c) = (\<Sum>x\<leftarrow>xs. f x) / (c :: real)"
  by (induction xs) (simp_all add: add_divide_distrib)

lemma sum_list_exp_pos: "xs \<noteq> [] \<Longrightarrow> 0 < (\<Sum>x\<leftarrow>xs. exp (x :: real))"
proof (cases xs)
  case Nil
  then show "xs \<noteq> [] \<Longrightarrow> ?thesis" by simp
next
  case (Cons a ys)
  have "0 \<le> (\<Sum>x\<leftarrow>ys. exp (x :: real))"
    by (rule sum_list_nonneg) auto
  moreover have "0 < exp a" by simp
  ultimately show ?thesis unfolding Cons by (simp add: add_pos_nonneg)
qed

lemma softmax_sums_to_one: "xs \<noteq> [] \<Longrightarrow> sum_list (softmax xs) = 1"
  using sum_list_exp_pos[of xs] by (simp add: softmax_def sum_list_divide)

lemma softmax_nth: "i < length xs \<Longrightarrow> softmax xs ! i = exp (xs ! i) / (\<Sum>y\<leftarrow>xs. exp y)"
  by (simp add: softmax_def)

text \<open>
  Claim C3, as the code has it. For queries and keys of a common per-head channel
  dimension, the weight of key \<open>s\<close> for query \<open>l\<close> is the softmax over the key axis of
  the raw dot products: \<open>exp (q\<^sub>l \<bullet> k\<^sub>s) / \<Sum>\<^sub>t exp (q\<^sub>l \<bullet> k\<^sub>t)\<close>, with no division by the
  square root of the channel dimension; each row of weights sums to 1.
\<close>

theorem attn_unscaled_softmax:
  assumes q: "\<forall>ql\<in>set q. length ql = c" and k: "\<forall>ks\<in>set k. length ks = c"
    and l: "l < length q" and s: "s < length k"
  shows "\<exists>a. attn q k = Inr a \<and> length a = length q \<and> length (a ! l) = length k
    \<and> a ! l ! s = exp (\<Sum>(u, v)\<leftarrow>zip (q ! l) (k ! s). u * v)
                   / (\<Sum>kt\<leftarrow>k. exp (\<Sum>(u, v)\<leftarrow>zip (q ! l) kt. u * v))
    \<and> sum_list (a ! l) = 1"
proof -
  let ?sc = "map (\<lambda>ql. map (\<lambda>ks. \<Sum>(u, v)\<leftarrow>zip ql ks. u * v) k) q"
  have a: "attn q k = Inr (map softmax ?sc)"
    by (simp add: attn_def einsum_lc_sc_rect[OF q k])
  have row: "map softmax ?sc ! l = softmax (map (\<lambda>ks. \<Sum>(u, v)\<leftarrow>zip (q ! l) ks. u * v) k)"
    using l by simp
  have "k \<noteq> []" using s by auto
  then have one: "sum_list (map softmax ?sc ! l) = 1"
    unfolding row by (intro softmax_sums_to_one) simp
  have v: "map softmax ?sc ! l ! s = exp (\<Sum>(u, v)\<leftarrow>zip (q ! l) (k ! s). u * v)
                   / (\<Sum>kt\<leftarrow>k. exp (\<Sum>(u, v)\<leftarrow>zip (q ! l) kt. u * v))"
    unfolding row using s by (simp add: softmax_nth comp_def)
  have len: "length (map softmax ?sc ! l) = length k"
    unfolding row by (simp add: softmax_def)
  show ?thesis
    using a one v len by simp
qed

theorem attn_unscaled_softmax_witness:
  "\<exists>a. attn [[2, 0, 0, 0]] [[1, 0, 0, 0], [0, 0, 0, 0]] = Inr a
        \<and> a ! 0 ! 0 = exp 2 / (exp 2 + 1) \<and> sum_list (a ! 0) = 1"
proof -
  have q: "\<forall>ql\<in>set [[2, 0, 0, 0 :: real]]. length ql = 4" by simp
  have k: "\<forall>ks\<in>set [[1, 0, 0, 0], [0, 0, 0, 0 :: real]]. length ks = 4" by simp
  have l: "0 < length [[2, 0, 0, 0 :: real]]" by simp
  have s: "0 < length [[1, 0, 0, 0], [0, 0, 0, 0 :: real]]" by simp
  from attn_unscaled_softmax[OF q k l s]
  obtain a where "attn [[2, 0, 0, 0]] [[1, 0, 0, 0], [0, 0, 0, 0]] = Inr a"
    and "a ! 0 ! 0 = exp 2 / (exp 2 + 1)" and "sum_list (a ! 0) = 1"
    by auto
  then show ?thesis by blast
qed

text \<open>
  Claim C3 as stated fails: for the query \<open>(2, 0, 0, 0)\<close> and the keys \<open>(1, 0, 0, 0)\<close> and
  \<open>(0, 0, 0, 0)\<close> of channel dimension 4, the code weights the second key by
  \<open>1 / (exp 2 + 1)\<close>, scaled dot-product attention by \<open>1 / (exp 1 + 1)\<close>.
\<close>

theorem attn_scaled_counterexample:
  "attn [[2, 0, 0, 0]] [[1, 0, 0, 0], [0, 0, 0, 0]]
     \<noteq> scaled_dot_product_attn 4 [[2, 0, 0, 0]] [[1, 0, 0, 0], [0, 0, 0, 0]]"
proof -
  have "exp (2 :: real) \<noteq> exp 1" by simp
  then have "1 / (exp 2 + 1) \<noteq> 1 / (exp 1 + (1 :: real))" by simp
  moreover have "sqrt 4 = 2" by (rule real_sqrt_four)
  ultimately show ?thesis
    by (simp add: attn_def scaled_dot_product_attn_def einsum_lc_sc_def contract_def
        broadcast_def softmax_def)
qed

section \<open>Facts about rows and norms\<close>

lemma rows_Suc: "rows (Suc n) c xs = take c xs # rows n c (drop c xs)"
proof -
  have "[0..<Suc n] = 0 # map Suc [0..<n]"
    by (simp add: upt_conv_Cons map_Suc_upt del: upt_Suc)
  then have "rows (Suc n) c xs = map (\<lambda>i. take c (drop (i * c) xs)) (0 # map Suc [0..<n])"
    unfolding rows_def by simp
  also have "\<dots> = take c xs # map (\<lambda>i. take c (drop (Suc i * c) xs)) [0..<n]"
    by (simp add: comp_def)
  also have "map (\<lambda>i. take c (drop (Suc i * c) xs)) [0..<n] = rows n c (drop c xs)"
    unfolding rows_def by (simp add: add.commute)
  finally show ?thesis .
qed

lemma rows_0 [simp]: "rows 0 c xs = []"
  by (simp add: rows_def)

lemma length_rows [simp]: "length (rows n c xs) = n"
  by (simp add: rows_def)

lemma concat_rows: "length xs = n * c \<Longrightarrow> concat (rows n c xs) = xs"
proof (induction n arbitrary: xs)
  case 0
  then show ?case by simp
next
  case (Suc n)
  then have "length (drop c xs) = n * c" by simp
  from Suc.IH[OF this] show ?case by (simp add: rows_Suc)
qed

lemma rows_map: "rows n c (map f xs) = map (map f) (rows n c xs)"
  by (simp add: rows_def take_map drop_map)

lemma rows_length:
  assumes "length xs = n * c" and "r \<in> set (rows n c xs)"
  shows "length r = c"
proof -
  from assms(2) obtain i where i: "i < n" and r: "r = take c (drop (i * c) xs)"
    by (auto simp: rows_def)
  have "Suc i * c \<le> n * c" using i by (intro mult_le_mono1) simp
  then have "c \<le> length xs - i * c" using assms(1) by simp
  then show ?thesis unfolding r by simp
qed

lemma lp_norm_nonneg: "0 \<le> lp_norm p v"
  by (simp add: lp_norm_def)

lemma lp_norm_zero_iff: "lp_norm p v = 0 \<longleftrightarrow> (\<forall>x\<in>set v. x = 0)"
proof -
  have "(\<Sum>x\<leftarrow>v. \<bar>x\<bar> powr p) = 0 \<longleftrightarrow> (\<forall>y\<in>set (map (\<lambda>x. \<bar>x\<bar> powr p) v). y = 0)"
    by (rule sum_list_nonneg_eq_0_iff) auto
  then show ?thesis by (auto simp: lp_norm_def)
qed

lemma sum_list_mult_const: "(\<Sum>x\<leftarrow>xs. c * f x) = c * (\<Sum>x\<leftarrow>xs. f x :: real)"
  by (induction xs) (simp_all add: algebra_simps)

lemma lp_norm_scale:
  assumes "0 < p"
  shows "lp_norm p (map (\<lambda>v. k * v) v) = \<bar>k\<bar> * lp_norm p v"
proof -
  have nn: "0 \<le> (\<Sum>x\<leftarrow>v. \<bar>x\<bar> powr p)"
    by (rule sum_list_nonneg) auto
  have "(\<Sum>x\<leftarrow>map (\<lambda>v. k * v) v. \<bar>x\<bar> powr p) = (\<Sum>x\<leftarrow>v. \<bar>k\<bar> powr p * \<bar>x\<bar> powr p)"
    by (simp add: comp_def abs_mult powr_mult)
  also have "\<dots> = \<bar>k\<bar> powr p * (\<Sum>x\<leftarrow>v. \<bar>x\<bar> powr p)"
    by (rule sum_list_mult_const)
  finally have "lp_norm p (map (\<lambda>v. k * v) v)
      = (\<bar>k\<bar> powr p * (\<Sum>x\<leftarrow>v. \<bar>x\<bar> powr p)) powr (1 / p)"
    by (simp add: lp_norm_def)
  also have "\<dots> = (\<bar>k\<bar> powr p) powr (1 / p) * (\<Sum>x\<leftarrow>v. \<bar>x\<bar> powr p) powr (1 / p)"
    using nn by (simp add: powr_mult)
  also have "(\<bar>k\<bar> powr p) powr (1 / p) = \<bar>k\<bar>"
    using assms by (simp add: powr_powr)
  finally show ?thesis by (simp add: lp_norm_def)
qed

lemma diff_pairs_same_length:
  "length xs = length ys \<Longrightarrow>
     emap (\<lambda>(a, b). broadcast (-) a b) (zip (rows n c xs) (rows n c ys))
       = Inr (rows n c (map2 (-) xs ys))"
proof (induction n arbitrary: xs ys)
  case 0
  then show ?case by simp
next
  case (Suc n)
  have "length (drop c xs) = length (drop c ys)" using Suc.prems by simp
  from Suc.IH[OF this] show ?case
    using Suc.prems
    by (simp add: rows_Suc broadcast_def take_zip drop_zip take_map drop_map)
qed

lemma reshape_rows_wf:
  assumes "wf_tensor t" and "shape t = n # rest" and "0 < n"
  shows "reshape_rows n t = Inr (rows n (prod_list rest) (elems t))"
  using assms by (simp add: reshape_rows_def wf_tensor_def)

lemma diff_rows_same_shape:
  assumes "wf_tensor x" "wf_tensor y" "shape x = shape y" "shape x = n # rest" "0 < n"
  shows "diff_rows x y = Inr (rows n (prod_list rest) (map2 (-) (elems x) (elems y)))"
proof -
  have len: "length (elems x) = length (elems y)"
    using assms by (simp add: wf_tensor_def)
  have y: "shape y = n # rest" using assms by simp
  show ?thesis
    using assms(4)
    by (simp add: diff_rows_def py_get_def reshape_rows_wf[OF assms(1,4,5)]
        reshape_rows_wf[OF assms(2) y assms(5)] diff_pairs_same_length[OF len])
qed

lemma map2_minus_zero:
  "length xs = length ys \<Longrightarrow> (\<forall>v\<in>set (map2 (-) xs ys). v = (0::real)) \<longleftrightarrow> xs = ys"
  by (induction xs ys rule: list_induct2) auto

lemma init_LpLoss:
  assumes "LpLoss_init d p = Inr L"
  shows "lp_d L = d" "lp_p L = p" "0 < d" "0 < p"
  using assms by (auto simp: LpLoss_init_def split: if_splits)


lemma broadcast_minus_scale:
  "broadcast (-) (map (\<lambda>v. k * v) a) (map (\<lambda>v. k * v) b)
     = map_sum id (map (\<lambda>v. k * (v :: real))) (broadcast (-) a b)"
proof -
  have "length b = 1 \<Longrightarrow> hd (map (\<lambda>v. k * v) b) = k * hd b"
    by (cases b) auto
  moreover have "length a = 1 \<Longrightarrow> hd (map (\<lambda>v. k * v) a) = k * hd a"
    by (cases a) auto
  moreover have "length a = length b \<Longrightarrow>
      map2 (-) (map (\<lambda>v. k * v) a) (map (\<lambda>v. k * v) b) = map (\<lambda>v. k * v) (map2 (-) a b)"
    by (induction a b rule: list_induct2) (simp_all add: right_diff_distrib)
  ultimately show ?thesis
    by (simp add: broadcast_def right_diff_distrib)
qed

lemma emap_diff_scale:
  "emap (\<lambda>(a, b). broadcast (-) a b) (zip (map (map (\<lambda>v. k * v)) xr) (map (map (\<lambda>v. k * v)) yr))
     = map_sum id (map (map (\<lambda>v. k * (v :: real))))
         (emap (\<lambda>(a, b). broadcast (-) a b) (zip xr yr))"
proof (induction xr arbitrary: yr)
  case Nil
  then show ?case by simp
next
  case (Cons a xr)
  show ?case
  proof (cases yr)
    case Nil
    then show ?thesis by simp
  next
    case (Cons b ys)
    show ?thesis
      unfolding Cons
      by (cases "broadcast (-) a b"; cases "emap (\<lambda>(a, b). broadcast (-) a b) (zip xr ys)")
         (simp_all add: broadcast_minus_scale Cons.IH)
  qed
qed

lemma reshape_rows_scale:
  "reshape_rows n (scale k t) = map_sum id (map (map (\<lambda>v. k * v))) (reshape_rows n t)"
  by (simp add: reshape_rows_def scale_def rows_map)

lemma diff_rows_scale:
  "diff_rows (scale k x) (scale k y) = map_sum id (map (map (\<lambda>v. k * v))) (diff_rows x y)"
proof -
  have sh: "shape (scale k x) = shape x" by (simp add: scale_def)
  show ?thesis
    unfolding diff_rows_def sh reshape_rows_scale
    by (cases "py_get (shape x) 0"; simp)
       (cases "reshape_rows (shape x ! 0) x"; cases "reshape_rows (shape x ! 0) y";
        simp add: emap_diff_scale py_get_def split: if_splits)
qed

lemma tdiv_scale:
  assumes "c \<noteq> 0"
  shows "tdiv (map (\<lambda>v. c * v) a) (map (\<lambda>v. c * v) b) = tdiv a b"
proof -
  have hb: "length b = 1 \<Longrightarrow> hd (map (\<lambda>v. c * v) b) = c * hd b"
    by (cases b) auto
  have ha: "length a = 1 \<Longrightarrow> hd (map (\<lambda>v. c * v) a) = c * hd a"
    by (cases a) auto
  show ?thesis
    using assms
    by (auto simp: tdiv_def broadcast_def list_ex_iff hb ha zip_map1 zip_map2 comp_def
        split_beta intro!: arg_cong[where f = sum_list])
qed

lemma LpLoss_rel_same_shape:
  assumes wf: "wf_tensor x" "wf_tensor y"
    and sh: "shape x = shape y" "shape x = n # rest"
    and n: "0 < n"
  shows "LpLoss_rel L x y
      = (if \<exists>r\<in>set (rows n (prod_list rest) (elems y)). \<forall>v\<in>set r. v = 0 then Inl NonFinite
         else Inr (\<Sum>(u, v)\<leftarrow>zip (map (lp_norm (lp_p L))
                       (rows n (prod_list rest) (map2 (-) (elems x) (elems y))))
                     (map (lp_norm (lp_p L)) (rows n (prod_list rest) (elems y))). u / v))"
proof -
  define c where "c = prod_list rest"
  define dr where "dr = rows n c (map2 (-) (elems x) (elems y))"
  define yr where "yr = rows n c (elems y)"
  define dn where "dn = map (lp_norm (lp_p L)) dr"
  define yn where "yn = map (lp_norm (lp_p L)) yr"
  have y: "shape y = n # rest" using sh by simp
  have df: "diff_rows x y = Inr dr"
    unfolding dr_def c_def by (rule diff_rows_same_shape[OF wf sh n])
  have ry: "reshape_rows n y = Inr yr"
    unfolding yr_def c_def by (rule reshape_rows_wf[OF wf(2) y n])
  have ln: "length dn = length yn"
    by (simp add: dn_def yn_def dr_def yr_def)
  have ex: "list_ex (\<lambda>(u, v). v = 0) (zip dn yn) \<longleftrightarrow> (\<exists>v\<in>set yn. v = 0)"
  proof -
    have "set (map snd (zip dn yn)) = set yn" using ln by simp
    then show ?thesis by (force simp: list_ex_iff)
  qed
  have td: "tdiv dn yn
      = (if \<exists>v\<in>set yn. v = 0 then Inl NonFinite
         else Inr (map (\<lambda>(u, v). u / v) (zip dn yn)))"
    using ln ex by (simp add: tdiv_def broadcast_def)
  have "LpLoss_rel L x y = ebind (tdiv dn yn) (\<lambda>q. Inr (sum_list q))"
    by (simp add: LpLoss_rel_def py_get_def sh(2) df ry Let_def dn_def yn_def)
  then have val: "LpLoss_rel L x y
      = (if \<exists>v\<in>set yn. v = 0 then Inl NonFinite
         else Inr (sum_list (map (\<lambda>(u, v). u / v) (zip dn yn))))"
    unfolding td by simp
  have "(\<exists>v\<in>set yn. v = 0) \<longleftrightarrow> (\<exists>r\<in>set yr. lp_norm (lp_p L) r = 0)"
    unfolding yn_def by force
  then have z: "(\<exists>v\<in>set yn. v = 0) \<longleftrightarrow> (\<exists>r\<in>set yr. \<forall>v\<in>set r. v = 0)"
    unfolding lp_norm_zero_iff .
  show ?thesis
    using val unfolding z unfolding dn_def yn_def dr_def yr_def c_def .
qed

text \<open>Over the reals a common nonzero factor cancels in every quotient of norms.\<close>

lemma LpLoss_rel_scale_real:
  assumes L: "LpLoss_init d p = Inr L"
    and k: "k \<noteq> 0"
    and fin: "LpLoss_rel L x y \<noteq> Inl NonFinite"
  shows "LpLoss_rel L (scale k x) (scale k y) = LpLoss_rel L x y"
proof -
  have pp: "0 < lp_p L" using init_LpLoss[OF L] by simp
  have sh: "shape (scale k x) = shape x" by (simp add: scale_def)
  have nrm: "map (lp_norm (lp_p L)) (map (map (\<lambda>v. k * v)) rs)
      = map (\<lambda>v. \<bar>k\<bar> * v) (map (lp_norm (lp_p L)) rs)" for rs
    by (simp add: lp_norm_scale[OF pp])
  have ak: "\<bar>k\<bar> \<noteq> 0" using k by simp
  show ?thesis
  proof (cases "py_get (shape x) 0")
    case (Inl e)
    then show ?thesis by (simp add: LpLoss_rel_def sh)
  next
    case n: (Inr n)
    show ?thesis
    proof (cases "diff_rows x y")
      case (Inl e)
      then show ?thesis by (simp add: LpLoss_rel_def sh n diff_rows_scale)
    next
      case df: (Inr df)
      show ?thesis
      proof (cases "reshape_rows n y")
        case (Inl e)
        then show ?thesis
          by (simp add: LpLoss_rel_def sh n diff_rows_scale df reshape_rows_scale)
      next
        case yr: (Inr yr)
        show ?thesis
          by (simp add: LpLoss_rel_def sh n diff_rows_scale df reshape_rows_scale yr
              Let_def nrm tdiv_scale[OF ak] del: map_map)
      qed
    qed
  qed
qed

section \<open>The loss in floating-point arithmetic\<close>

lemma lp_norm_fp_exact: "lp_norm_fp Fin p (map Fin v) = Fin (lp_norm p v)"
proof -
  have "0 \<le> (\<Sum>x\<leftarrow>v. \<bar>x\<bar> powr p)"
    by (intro sum_list_nonneg) auto
  moreover have "map (fp_abs_pow Fin p) (map Fin v) = map Fin (map (\<lambda>x. \<bar>x\<bar> powr p) v)"
    by simp
  ultimately show ?thesis
    unfolding lp_norm_fp_def lp_norm_def by (simp only: fp_sum_Fin) simp
qed

lemma broadcast_lift:
  assumes "\<And>u v. g (Fin u) (Fin v) = Fin (f u v)"
  shows "broadcast g (map Fin a) (map Fin b) = map_sum id (map Fin) (broadcast f a b)"
proof -
  have "length b = 1 \<Longrightarrow> hd (map Fin b) = Fin (hd b)"
    by (cases b) auto
  moreover have "length a = 1 \<Longrightarrow> hd (map Fin a) = Fin (hd a)"
    by (cases a) auto
  moreover have "length a = length b \<Longrightarrow>
      map2 g (map Fin a) (map Fin b) = map Fin (map2 f a b)"
    by (induction a b rule: list_induct2) (simp_all add: assms)
  ultimately show ?thesis
    by (simp add: broadcast_def assms)
qed

lemma fp_sub_Fin: "fp_sub Fin (Fin u) (Fin v) = Fin (u - v)"
  by (simp add: fp_sub_def)

lemma emap_diff_fp_exact:
  "emap (\<lambda>(a, b). broadcast (fp_sub Fin) a b) (zip (map (map Fin) xr) (map (map Fin) yr))
     = map_sum id (map (map Fin)) (emap (\<lambda>(a, b). broadcast (-) a b) (zip xr yr))"
proof (induction xr arbitrary: yr)
  case Nil
  then show ?case by simp
next
  case (Cons a xr)
  show ?case
  proof (cases yr)
    case Nil
    then show ?thesis by simp
  next
    case (Cons b ys)
    show ?thesis
      unfolding Cons
      by (cases "broadcast (-) a b"; cases "emap (\<lambda>(a, b). broadcast (-) a b) (zip xr ys)")
         (simp_all add: broadcast_lift[of "fp_sub Fin" "(-)", OF fp_sub_Fin] Cons.IH)
  qed
qed

lemma reshape_rows_lift:
  "reshape_rows n (tensor_map f t) = map_sum id (map (map f)) (reshape_rows n t)"
  by (simp add: reshape_rows_def rows_map)

lemma diff_rows_fp_exact:
  "diff_rows_fp Fin (tensor_map Fin x) (tensor_map Fin y)
     = map_sum id (map (map Fin)) (diff_rows x y)"
  unfolding diff_rows_fp_def diff_rows_def shape_tensor_map reshape_rows_lift
  by (cases "py_get (shape x) 0"; simp)
     (cases "reshape_rows (shape x ! 0) x"; cases "reshape_rows (shape x ! 0) y";
      simp add: emap_diff_fp_exact py_get_def split: if_splits)

text \<open>
  The loss over the reals is the loss in the arithmetic of the program with exact
  rounding.
\<close>

lemma LpLoss_abs_fp_exact:
  "LpLoss_abs_fp Fin L (tensor_map Fin x) (tensor_map Fin y) = map_sum id Fin (LpLoss_abs L x y)"
proof -
  have m: "map (\<lambda>r. fp_mul Fin (Fin H) (lp_norm_fp Fin p r)) (map (map Fin) df)
      = map Fin (map (\<lambda>r. H * lp_norm p r) df)" for H p df
    by (simp add: lp_norm_fp_exact)
  show ?thesis
    unfolding LpLoss_abs_fp_def LpLoss_abs_def shape_tensor_map diff_rows_fp_exact Let_def
    by (cases "py_get (shape x) 0"; cases "py_get (shape x) 1"; cases "diff_rows x y")
       (simp_all add: m fp_sum_Fin del: map_map)
qed

lemma tdiv_fp_exact:
  assumes "tdiv a b = Inr q"
  shows "broadcast (fp_div Fin) (map Fin a) (map Fin b) = Inr (map Fin q)"
proof -
  from assms obtain uv where uv: "broadcast Pair a b = Inr uv"
    and nz: "\<not> list_ex (\<lambda>(u, v). v = 0) uv" and q: "q = map (\<lambda>(u, v). u / v) uv"
    by (cases "broadcast Pair a b") (auto simp: tdiv_def split: if_splits)
  have hb: "length b = 1 \<Longrightarrow> hd (map Fin b) = Fin (hd b)"
    by (cases b) auto
  have ha: "length a = 1 \<Longrightarrow> hd (map Fin a) = Fin (hd a)"
    by (cases a) auto
  have z: "map2 (fp_div Fin) (map Fin a) (map Fin b) = map Fin (map (\<lambda>(u, v). u / v) (zip a b))"
    if "\<forall>v\<in>set b. v \<noteq> 0" "length a = length b"
    using that(2) that(1) by (induction a b rule: list_induct2) simp_all
  show ?thesis
  proof (cases "length a = length b")
    case True
    with uv have "uv = zip a b" by (simp add: broadcast_def)
    moreover have "\<forall>v\<in>set b. v \<noteq> 0"
    proof
      fix v assume "v \<in> set b"
      then have "v \<in> set (map snd (zip a b))" using True by simp
      then obtain u where "(u, v) \<in> set (zip a b)" by auto
      with nz \<open>uv = zip a b\<close> show "v \<noteq> 0" by (auto simp: list_ex_iff)
    qed
    ultimately show ?thesis using True by (simp add: broadcast_def q z)
  next
    case False
    show ?thesis
    proof (cases "length b = 1")
      case True
      then obtain v where b: "b = [v]" by (cases b) auto
      with uv False have u: "uv = map (\<lambda>u. (u, v)) a" by (simp add: broadcast_def)
      have "a = [] \<or> v \<noteq> 0"
        using nz unfolding u by (cases a) (auto simp: list_ex_iff)
      then have "map (\<lambda>u. fp_div Fin u (Fin v)) (map Fin a) = map Fin (map (\<lambda>u. u / v) a)"
        by auto
      then show ?thesis using False b by (simp add: broadcast_def q u comp_def)
    next
      case nb: False
      show ?thesis
      proof (cases "length a = 1")
        case True
        then obtain u where a: "a = [u]" by (cases a) auto
        with uv False nb have u: "uv = map (\<lambda>v. (u, v)) b" by (simp add: broadcast_def)
        have "\<forall>v\<in>set b. v \<noteq> 0" using nz unfolding u by (auto simp: list_ex_iff)
        then have "map (\<lambda>v. fp_div Fin (Fin u) v) (map Fin b) = map Fin (map (\<lambda>v. u / v) b)"
          by (induction b) simp_all
        then show ?thesis using False nb a by (simp add: broadcast_def q u comp_def)
      next
        case False
        with uv nb \<open>length a \<noteq> length b\<close> show ?thesis by (simp add: broadcast_def)
      qed
    qed
  qed
qed

lemma LpLoss_rel_fp_exact:
  assumes "LpLoss_rel L x y = Inr r"
  shows "LpLoss_rel_fp Fin L (tensor_map Fin x) (tensor_map Fin y) = Inr (Fin r)"
proof -
  from assms obtain n where n: "py_get (shape x) 0 = Inr n"
    by (cases "py_get (shape x) 0") (simp_all add: LpLoss_rel_def)
  from assms n obtain df where df: "diff_rows x y = Inr df"
    by (cases "diff_rows x y") (simp_all add: LpLoss_rel_def)
  from assms n df obtain yr where yr: "reshape_rows n y = Inr yr"
    by (cases "reshape_rows n y") (simp_all add: LpLoss_rel_def)
  let ?dn = "map (lp_norm (lp_p L)) df" and ?yn = "map (lp_norm (lp_p L)) yr"
  from assms n df yr obtain q where q: "tdiv ?dn ?yn = Inr q" and r: "r = sum_list q"
    by (cases "tdiv ?dn ?yn") (auto simp: LpLoss_rel_def Let_def)
  have m: "map (lp_norm_fp Fin p) (map (map Fin) rs) = map Fin (map (lp_norm p) rs)" for p rs
    by (simp add: lp_norm_fp_exact)
  show ?thesis
    unfolding LpLoss_rel_fp_def shape_tensor_map diff_rows_fp_exact reshape_rows_lift Let_def
    by (simp add: n df yr m tdiv_fp_exact[OF q] fp_sum_Fin r del: map_map)
qed

lemma tdiv_fp_error:
  assumes "tdiv a b = Inl e" "e \<noteq> NonFinite"
  shows "broadcast (fp_div Fin) (map Fin a) (map Fin b) = Inl e"
  using assms by (auto simp: tdiv_def broadcast_def split: if_splits)

lemma LpLoss_rel_fp_error:
  assumes "LpLoss_rel L x y = Inl e" "e \<noteq> NonFinite"
  shows "LpLoss_rel_fp Fin L (tensor_map Fin x) (tensor_map Fin y) = Inl e"
proof -
  have m: "map (lp_norm_fp Fin p) (map (map Fin) rs) = map Fin (map (lp_norm p) rs)" for p rs
    by (simp add: lp_norm_fp_exact)
  show ?thesis
  proof (cases "py_get (shape x) 0")
    case (Inl e')
    with assms show ?thesis by (simp add: LpLoss_rel_def LpLoss_rel_fp_def)
  next
    case n: (Inr n)
    show ?thesis
    proof (cases "diff_rows x y")
      case (Inl e')
      with assms n show ?thesis
        by (simp add: LpLoss_rel_def LpLoss_rel_fp_def diff_rows_fp_exact)
    next
      case df: (Inr df)
      show ?thesis
      proof (cases "reshape_rows n y")
        case (Inl e')
        with assms n df show ?thesis
          by (simp add: LpLoss_rel_def LpLoss_rel_fp_def diff_rows_fp_exact reshape_rows_lift)
      next
        case yr: (Inr yr)
        let ?dn = "map (lp_norm (lp_p L)) df" and ?yn = "map (lp_norm (lp_p L)) yr"
        from assms n df yr have "tdiv ?dn ?yn = Inl e"
          by (cases "tdiv ?dn ?yn") (simp_all add: LpLoss_rel_def Let_def)
        from tdiv_fp_error[OF this assms(2)] show ?thesis
          unfolding LpLoss_rel_fp_def shape_tensor_map diff_rows_fp_exact reshape_rows_lift Let_def
          by (simp add: n df yr m del: map_map)
      qed
    qed
  qed
qed

lemma LpLoss_rel_fp_finite:
  assumes "LpLoss_rel L x y \<noteq> Inl NonFinite"
  shows "LpLoss_rel_fp Fin L (tensor_map Fin x) (tensor_map Fin y)
      = map_sum id Fin (LpLoss_rel L x y)"
proof (cases "LpLoss_rel L x y")
  case (Inl e)
  with assms have "e \<noteq> NonFinite" by simp
  from LpLoss_rel_fp_error[OF Inl this] Inl show ?thesis by simp
next
  case (Inr r)
  from LpLoss_rel_fp_exact[OF Inr] Inr show ?thesis by simp
qed

lemma scale_fp_exact: "scale_fp Fin k (tensor_map Fin t) = tensor_map Fin (scale k t)"
  by (simp add: scale_fp_def scale_def tensor_map_def)

text \<open>In single precision the loss of a finite field against itself is 0.\<close>

lemma fp_sum_zeros: "fp_sum binary32 (map (\<lambda>_. Fin 0) xs) = Fin 0"
proof -
  have "foldl (fp_add binary32) (Fin 0) (map (\<lambda>_. Fin 0) xs) = Fin 0"
    by (induction xs) simp_all
  then show ?thesis by (simp add: fp_sum_def)
qed

lemma lp_norm_fp_zeros: "lp_norm_fp binary32 p (map (\<lambda>_. Fin 0) a) = Fin 0"
proof -
  have "map (fp_abs_pow binary32 p) (map (\<lambda>_. Fin 0) a) = map (\<lambda>_. Fin 0) a"
    by simp
  then show ?thesis
    unfolding lp_norm_fp_def by (simp only: fp_sum_zeros) simp
qed

lemma emap_diff_self:
  "emap (\<lambda>(a, b). broadcast (fp_sub binary32) a b) (zip (map (map Fin) xr) (map (map Fin) xr))
     = Inr (map (map (\<lambda>_. Fin 0)) xr)"
proof (induction xr)
  case Nil
  then show ?case by simp
next
  case (Cons a xr)
  have "map2 (fp_sub binary32) (map Fin a) (map Fin a) = map (\<lambda>_. Fin 0) a"
    by (induction a) (simp_all add: fp_sub_def)
  then show ?case using Cons by (simp add: broadcast_def)
qed

lemma LpLoss_abs_fp_self:
  assumes L: "LpLoss_init d p = Inr L"
    and wf: "wf_tensor x" and sh: "shape x = n # s1 # rest"
    and n: "0 < n" and s1: "2 \<le> s1"
  shows "LpLoss_abs_fp binary32 L (tensor_map Fin x) (tensor_map Fin x) = Inr (Fin 0)"
proof -
  let ?xr = "rows n (prod_list (s1 # rest)) (elems x)"
  have rr: "reshape_rows n (tensor_map Fin x) = Inr (map (map Fin) ?xr)"
    unfolding reshape_rows_lift reshape_rows_wf[OF wf sh n] by simp
  have df: "diff_rows_fp binary32 (tensor_map Fin x) (tensor_map Fin x)
      = Inr (map (map (\<lambda>_. Fin 0)) ?xr)"
    unfolding diff_rows_fp_def shape_tensor_map
    by (simp add: sh py_get_def rr emap_diff_self del: prod_list.Cons)
  define h where "h = 1 / (real s1 - 1)"
  have h: "0 < h" "h \<le> 1" using s1 by (simp_all add: h_def)
  have dp: "0 < lp_d L / lp_p L" using init_LpLoss[OF L] by simp
  have "0 < h powr (lp_d L / lp_p L)" using h by simp
  moreover have "h powr (lp_d L / lp_p L) \<le> 1"
    using h dp by (intro powr_le1) simp_all
  ultimately obtain v where v: "binary32 (h powr (lp_d L / lp_p L)) = Fin v"
    using binary32_unit_finite by blast
  have m: "map (\<lambda>r. fp_mul binary32 (Fin v) (lp_norm_fp binary32 (lp_p L) r))
             (map (map (\<lambda>_. Fin 0)) ?xr) = map (\<lambda>_. Fin 0) ?xr"
    by (simp add: lp_norm_fp_zeros)
  show ?thesis
    unfolding LpLoss_abs_fp_def shape_tensor_map Let_def
    using s1
    by (simp add: sh py_get_def df h_def[symmetric] v m fp_sum_zeros
        del: map_map prod_list.Cons)
qed

section \<open>Properties of the loss\<close>

lemmas loss_eval_defs =
  LpLoss_rel_fp_def LpLoss_abs_fp_def diff_rows_fp_def lp_norm_fp_def scale_fp_def
  tensor_map_def py_get_def reshape_rows_def rows_def broadcast_def fp_sum_def fp_sub_def
  Let_def

text \<open>
  Claim C5, in exact arithmetic. For every nonzero scalar \<open>k\<close>, every norm order \<open>p \<ge> 1\<close>
  and all fields \<open>x\<close> and \<open>y\<close> on which the relative loss is finite (no sample of \<open>y\<close> has
  norm zero), \<open>rel (k x, k y) = rel (x, y)\<close>; a shape error of \<open>rel (x, y)\<close> is the same
  shape error of \<open>rel (k x, k y)\<close>. This holds over the reals and, which is the same, in
  the arithmetic of the program when no operation rounds.
\<close>

theorem LpLoss_rel_scale_invariant:
  assumes L: "LpLoss_init d p = Inr L"
    and p: "1 \<le> p" and k: "k \<noteq> 0"
    and fin: "LpLoss_rel L x y \<noteq> Inl NonFinite"
  shows "LpLoss_rel L (scale k x) (scale k y) = LpLoss_rel L x y
    \<and> LpLoss_rel_fp Fin L (scale_fp Fin k (tensor_map Fin x)) (scale_fp Fin k (tensor_map Fin y))
        = LpLoss_rel_fp Fin L (tensor_map Fin x) (tensor_map Fin y)"
proof -
  have r: "LpLoss_rel L (scale k x) (scale k y) = LpLoss_rel L x y"
    by (rule LpLoss_rel_scale_real[OF L k fin])
  with fin have fin': "LpLoss_rel L (scale k x) (scale k y) \<noteq> Inl NonFinite"
    by simp
  have "LpLoss_rel_fp Fin L (scale_fp Fin k (tensor_map Fin x)) (scale_fp Fin k (tensor_map Fin y))
      = map_sum id Fin (LpLoss_rel L (scale k x) (scale k y))"
    unfolding scale_fp_exact by (rule LpLoss_rel_fp_finite[OF fin'])
  also have "\<dots> = LpLoss_rel_fp Fin L (tensor_map Fin x) (tensor_map Fin y)"
    unfolding r by (rule LpLoss_rel_fp_finite[OF fin, symmetric])
  finally show ?thesis using r by (rule conjI[rotated])
qed

theorem LpLoss_rel_scale_invariant_witness:
  "LpLoss_init 2 2 = Inr \<lparr>lp_d = 2, lp_p = 2\<rparr> \<and> (1 :: real) \<le> 2 \<and> (3 :: real) \<noteq> 0
   \<and> LpLoss_rel \<lparr>lp_d = 2, lp_p = 2\<rparr> \<lparr>shape = [1, 2], elems = [1, 2]\<rparr>
        \<lparr>shape = [1, 2], elems = [3, 4]\<rparr> \<noteq> Inl NonFinite
   \<and> LpLoss_rel \<lparr>lp_d = 2, lp_p = 2\<rparr> (scale 3 \<lparr>shape = [1, 2], elems = [1, 2]\<rparr>)
        (scale 3 \<lparr>shape = [1, 2], elems = [3, 4]\<rparr>)
     = LpLoss_rel \<lparr>lp_d = 2, lp_p = 2\<rparr> \<lparr>shape = [1, 2], elems = [1, 2]\<rparr>
        \<lparr>shape = [1, 2], elems = [3, 4]\<rparr>
   \<and> LpLoss_rel_fp Fin \<lparr>lp_d = 2, lp_p = 2\<rparr>
        (scale_fp Fin 3 (tensor_map Fin \<lparr>shape = [1, 2], elems = [1, 2]\<rparr>))
        (scale_fp Fin 3 (tensor_map Fin \<lparr>shape = [1, 2], elems = [3, 4]\<rparr>))
     = LpLoss_rel_fp Fin \<lparr>lp_d = 2, lp_p = 2\<rparr>
        (tensor_map Fin \<lparr>shape = [1, 2], elems = [1, 2]\<rparr>)
        (tensor_map Fin \<lparr>shape = [1, 2], elems = [3, 4]\<rparr>)"
proof -
  let ?L = "\<lparr>lp_d = 2, lp_p = 2\<rparr>"
  let ?x = "\<lparr>shape = [1, 2], elems = [1, 2 :: real]\<rparr>"
  let ?y = "\<lparr>shape = [1, 2], elems = [3, 4 :: real]\<rparr>"
  have L: "LpLoss_init 2 2 = Inr ?L"
    by (simp add: LpLoss_init_def)
  have r: "rows (Suc 0) 2 [3, 4 :: real] = [[3, 4]]"
    by (simp add: rows_Suc)
  have fin: "LpLoss_rel ?L ?x ?y \<noteq> Inl NonFinite"
    by (subst LpLoss_rel_same_shape[where n = 1 and rest = "[2]"])
       (simp_all add: wf_tensor_def r)
  have p: "(1 :: real) \<le> 2" and k: "(3 :: real) \<noteq> 0"
    by simp_all
  note inv = LpLoss_rel_scale_invariant[OF L p k fin]
  from L p k fin inv[THEN conjunct1] inv[THEN conjunct2] show ?thesis
    by (intro conjI)
qed

text \<open>
  Claim C5 as stated fails in the arithmetic of the program. In single precision, for
  \<open>x = [[2, 0]]\<close>, \<open>y = [[1, 0]]\<close> and \<open>p = 2\<close>, the relative loss is 1; for \<open>k = 2\<^sup>1\<^sup>0\<^sup>0\<close> the
  scaled fields \<open>[[2\<^sup>1\<^sup>0\<^sup>1, 0]]\<close> and \<open>[[2\<^sup>1\<^sup>0\<^sup>0, 0]]\<close> are finite, but the squares \<open>2\<^sup>2\<^sup>0\<^sup>0\<close> in both
  norms overflow to \<open>inf\<close>, and the quotient \<open>inf / inf\<close> is \<open>nan\<close>.
\<close>

theorem LpLoss_rel_scale_counterexample:
  "LpLoss_rel_fp binary32 \<lparr>lp_d = 2, lp_p = 2\<rparr>
       (scale_fp binary32 (pow2 100) \<lparr>shape = [1, 2], elems = [Fin 2, Fin 0]\<rparr>)
       (scale_fp binary32 (pow2 100) \<lparr>shape = [1, 2], elems = [Fin 1, Fin 0]\<rparr>) = Inr NaN
   \<and> LpLoss_rel_fp binary32 \<lparr>lp_d = 2, lp_p = 2\<rparr>
       \<lparr>shape = [1, 2], elems = [Fin 2, Fin 0]\<rparr> \<lparr>shape = [1, 2], elems = [Fin 1, Fin 0]\<rparr>
     = Inr (Fin 1)"
proof -
  have kx: "scale_fp binary32 (pow2 100) \<lparr>shape = [1, 2], elems = [Fin 2, Fin 0]\<rparr>
      = \<lparr>shape = [1, 2], elems = [Fin (pow2 101), Fin 0]\<rparr>"
    using pow2_mult[of 100 1]
    by (simp add: scale_fp_def tensor_map_def binary32_exact pow2_1)
  have ky: "scale_fp binary32 (pow2 100) \<lparr>shape = [1, 2], elems = [Fin 1, Fin 0]\<rparr>
      = \<lparr>shape = [1, 2], elems = [Fin (pow2 100), Fin 0]\<rparr>"
    by (simp add: scale_fp_def tensor_map_def binary32_exact)
  have d: "pow2 101 - pow2 100 = pow2 100"
    using pow2_diff_next[of 100] by simp
  have big: "LpLoss_rel_fp binary32 \<lparr>lp_d = 2, lp_p = 2\<rparr>
       \<lparr>shape = [1, 2], elems = [Fin (pow2 101), Fin 0]\<rparr>
       \<lparr>shape = [1, 2], elems = [Fin (pow2 100), Fin 0]\<rparr> = Inr NaN"
    by (simp add: loss_eval_defs d binary32_exact binary32_overflow pow2_square)
  have small: "LpLoss_rel_fp binary32 \<lparr>lp_d = 2, lp_p = 2\<rparr>
       \<lparr>shape = [1, 2], elems = [Fin 2, Fin 0]\<rparr> \<lparr>shape = [1, 2], elems = [Fin 1, Fin 0]\<rparr>
     = Inr (Fin 1)"
    by (simp add: loss_eval_defs)
  show ?thesis
    unfolding kx ky using big small by (rule conjI)
qed

text \<open>
  Claim C6, as the code has it. For finite fields \<open>x\<close> and \<open>y\<close> of one shape with at least
  one sample and a first spatial extent other than 1: in exact arithmetic the absolute
  loss is a number \<open>r \<ge> 0\<close>, and \<open>r = 0\<close> exactly when \<open>x = y\<close>, so it is strictly positive
  when they differ; in single precision the loss of \<open>x\<close> against itself is 0 (for an
  extent of at least 2).
\<close>

theorem LpLoss_abs_zero_iff:
  assumes L: "LpLoss_init d p = Inr L"
    and wf: "wf_tensor x" "wf_tensor y"
    and sh: "shape x = shape y" "shape x = n # s1 # rest"
    and n: "0 < n" and s1: "s1 \<noteq> 1"
  shows "(\<exists>r. LpLoss_abs L x y = Inr r \<and> 0 \<le> r \<and> (r = 0 \<longleftrightarrow> x = y))
    \<and> (2 \<le> s1 \<longrightarrow>
         LpLoss_abs_fp binary32 L (tensor_map Fin x) (tensor_map Fin x) = Inr (Fin 0))"
proof -
  define c where "c = prod_list (s1 # rest)"
  define H where "H = (1 / (real s1 - 1)) powr (lp_d L / lp_p L)"
  define dr where "dr = rows n c (map2 (-) (elems x) (elems y))"
  have y: "shape y = n # s1 # rest" using sh by simp
  have len: "length (elems x) = n * c" "length (elems y) = n * c"
    using wf by (simp_all add: wf_tensor_def c_def sh(2) y)
  have H: "0 < H"
    using s1 by (simp add: H_def)
  have df: "diff_rows x y = Inr dr"
    unfolding dr_def c_def by (rule diff_rows_same_shape[OF wf sh n])
  have val: "LpLoss_abs L x y = Inr (\<Sum>r\<leftarrow>dr. H * lp_norm (lp_p L) r)"
    using s1 by (simp add: LpLoss_abs_def py_get_def sh(2) df H_def Let_def)
  have nn: "\<forall>v\<in>set (map (\<lambda>r. H * lp_norm (lp_p L) r) dr). 0 \<le> v"
    using H by (auto simp: lp_norm_nonneg)
  then have pos: "0 \<le> (\<Sum>r\<leftarrow>dr. H * lp_norm (lp_p L) r)"
    by (intro sum_list_nonneg) auto
  have cc: "concat dr = map2 (-) (elems x) (elems y)"
    unfolding dr_def by (rule concat_rows) (simp add: len)
  have "(\<Sum>r\<leftarrow>dr. H * lp_norm (lp_p L) r) = 0
      \<longleftrightarrow> (\<forall>v\<in>set (map (\<lambda>r. H * lp_norm (lp_p L) r) dr). v = 0)"
    using nn by (intro sum_list_nonneg_eq_0_iff) auto
  also have "\<dots> \<longleftrightarrow> (\<forall>r\<in>set dr. \<forall>v\<in>set r. v = 0)"
    using H by (auto simp: lp_norm_zero_iff)
  also have "\<dots> \<longleftrightarrow> (\<forall>v\<in>set (concat dr). v = 0)"
    by auto
  also have "\<dots> \<longleftrightarrow> elems x = elems y"
    unfolding cc by (rule map2_minus_zero) (simp add: len)
  also have "\<dots> \<longleftrightarrow> x = y"
    using sh(1) by (simp add: tensor_eq_iff)
  finally have exact: "\<exists>r. LpLoss_abs L x y = Inr r \<and> 0 \<le> r \<and> (r = 0 \<longleftrightarrow> x = y)"
    using val pos by simp
  have "LpLoss_abs_fp binary32 L (tensor_map Fin x) (tensor_map Fin x) = Inr (Fin 0)"
    if "2 \<le> s1"
    by (rule LpLoss_abs_fp_self[OF L wf(1) sh(2) n that])
  with exact show ?thesis by blast
qed

theorem LpLoss_abs_zero_iff_witness:
  "LpLoss_init 2 2 = Inr \<lparr>lp_d = 2, lp_p = 2\<rparr>
   \<and> wf_tensor \<lparr>shape = [1, 2], elems = [1, 2 :: real]\<rparr>
   \<and> wf_tensor \<lparr>shape = [1, 2], elems = [1, 3 :: real]\<rparr>
   \<and> (0 :: nat) < 1 \<and> (2 :: nat) \<noteq> 1
   \<and> (\<exists>r. LpLoss_abs \<lparr>lp_d = 2, lp_p = 2\<rparr> \<lparr>shape = [1, 2], elems = [1, 2]\<rparr>
             \<lparr>shape = [1, 2], elems = [1, 3]\<rparr> = Inr r \<and> 0 < r)
   \<and> LpLoss_abs_fp binary32 \<lparr>lp_d = 2, lp_p = 2\<rparr>
         (tensor_map Fin \<lparr>shape = [1, 2], elems = [1, 2]\<rparr>)
         (tensor_map Fin \<lparr>shape = [1, 2], elems = [1, 2]\<rparr>) = Inr (Fin 0)"
proof -
  let ?L = "\<lparr>lp_d = 2, lp_p = 2\<rparr>"
  let ?x = "\<lparr>shape = [1, 2], elems = [1, 2 :: real]\<rparr>"
  let ?y = "\<lparr>shape = [1, 2], elems = [1, 3 :: real]\<rparr>"
  have L: "LpLoss_init 2 2 = Inr ?L"
    by (simp add: LpLoss_init_def)
  have wx: "wf_tensor ?x" and wy: "wf_tensor ?y"
    by (simp_all add: wf_tensor_def)
  have sh: "shape ?x = shape ?y" "shape ?x = 1 # 2 # []"
    by simp_all
  have n: "(0 :: nat) < 1" and s1: "(2 :: nat) \<noteq> 1"
    by simp_all
  note both = LpLoss_abs_zero_iff[OF L wx wy sh n s1]
  from both
  obtain r where r: "LpLoss_abs ?L ?x ?y = Inr r" "0 \<le> r" "r = 0 \<longleftrightarrow> ?x = ?y"
    by blast
  have "?x \<noteq> ?y" by simp
  with r have "0 < r" by simp
  with r(1) have pos: "\<exists>r. LpLoss_abs ?L ?x ?y = Inr r \<and> 0 < r" by blast
  from both have self: "LpLoss_abs_fp binary32 ?L (tensor_map Fin ?x) (tensor_map Fin ?x)
      = Inr (Fin 0)"
    by simp
  from L wx wy pos self show ?thesis by simp
qed

text \<open>
  Claim C6 as stated fails twice. In the arithmetic of the program, single precision:
  for \<open>x = [[2\<^sup>-\<^sup>1\<^sup>0\<^sup>0, 0]]\<close> and \<open>y = [[0, 0]]\<close>, finite and different, the square \<open>2\<^sup>-\<^sup>2\<^sup>0\<^sup>0\<close> of the
  difference underflows to 0 and the loss is 0. And for the field of shape (1, 1)
  holding the value 0, compared with itself, the mesh width \<open>1.0 / (1 - 1.0)\<close> raises
  ZeroDivisionError; the loss of two equal fields is then not 0.
\<close>

theorem LpLoss_abs_counterexample:
  "LpLoss_abs_fp binary32 \<lparr>lp_d = 2, lp_p = 2\<rparr>
       \<lparr>shape = [1, 2], elems = [Fin (pow2 (- 100)), Fin 0]\<rparr>
       \<lparr>shape = [1, 2], elems = [Fin 0, Fin 0]\<rparr> = Inr (Fin 0)
   \<and> LpLoss_abs_fp binary32 \<lparr>lp_d = 2, lp_p = 2\<rparr>
       \<lparr>shape = [1, 1], elems = [Fin 0]\<rparr> \<lparr>shape = [1, 1], elems = [Fin 0]\<rparr>
     = Inl ZeroDivisionError"
proof -
  have under: "LpLoss_abs_fp binary32 \<lparr>lp_d = 2, lp_p = 2\<rparr>
       \<lparr>shape = [1, 2], elems = [Fin (pow2 (- 100)), Fin 0]\<rparr>
       \<lparr>shape = [1, 2], elems = [Fin 0, Fin 0]\<rparr> = Inr (Fin 0)"
    by (simp add: loss_eval_defs binary32_exact binary32_underflow pow2_square)
  have zde: "LpLoss_abs_fp binary32 \<lparr>lp_d = 2, lp_p = 2\<rparr>
       \<lparr>shape = [1, 1], elems = [Fin 0]\<rparr> \<lparr>shape = [1, 1], elems = [Fin 0]\<rparr>
     = Inl ZeroDivisionError"
    by (simp add: LpLoss_abs_fp_def py_get_def)
  from under zde show ?thesis by (rule conjI)
qed

text \<open>
  Claim C9. The quotient in \<open>rel\<close> is not guarded: for well-formed fields of one shape
  with at least one sample, the result is non-finite exactly when some sample of \<open>y\<close> is
  identically zero (its norm, the divisor, is 0), in particular when \<open>y\<close> is identically
  zero, and it is a number when every sample of \<open>y\<close> has a nonzero entry.
\<close>

theorem LpLoss_rel_division:
  assumes L: "LpLoss_init d p = Inr L"
    and wf: "wf_tensor x" "wf_tensor y"
    and sh: "shape x = shape y" "shape x = n # rest"
    and n: "0 < n"
  shows "(if \<exists>r\<in>set (rows n (prod_list rest) (elems y)). \<forall>v\<in>set r. v = 0
          then LpLoss_rel L x y = Inl NonFinite
          else \<exists>q. LpLoss_rel L x y = Inr q)
    \<and> ((\<forall>v\<in>set (elems y). v = 0) \<longrightarrow> LpLoss_rel L x y = Inl NonFinite)"
proof -
  let ?yr = "rows n (prod_list rest) (elems y)"
  have first: "(if \<exists>r\<in>set ?yr. \<forall>v\<in>set r. v = 0
          then LpLoss_rel L x y = Inl NonFinite
          else \<exists>q. LpLoss_rel L x y = Inr q)"
    by (simp add: LpLoss_rel_same_shape[OF wf sh n])
  have "\<exists>r\<in>set ?yr. \<forall>v\<in>set r. v = 0" if all0: "\<forall>v\<in>set (elems y). v = 0"
  proof -
    have "?yr \<noteq> []" using n by (auto simp: rows_def)
    then obtain r where r: "r \<in> set ?yr" by (cases ?yr) auto
    then have "set r \<subseteq> set (elems y)"
      by (auto simp: rows_def dest: in_set_takeD in_set_dropD)
    with all0 r show ?thesis by blast
  qed
  with first show ?thesis by auto
qed

theorem LpLoss_rel_division_witness:
  "LpLoss_init 2 2 = Inr \<lparr>lp_d = 2, lp_p = 2\<rparr>
   \<and> wf_tensor \<lparr>shape = [1, 2], elems = [1, 2 :: real]\<rparr>
   \<and> wf_tensor \<lparr>shape = [1, 2], elems = [0, 0 :: real]\<rparr>
   \<and> LpLoss_rel \<lparr>lp_d = 2, lp_p = 2\<rparr> \<lparr>shape = [1, 2], elems = [1, 2]\<rparr>
        \<lparr>shape = [1, 2], elems = [0, 0]\<rparr> = Inl NonFinite"
proof -
  let ?L = "\<lparr>lp_d = 2, lp_p = 2\<rparr>"
  let ?x = "\<lparr>shape = [1, 2], elems = [1, 2 :: real]\<rparr>"
  let ?y = "\<lparr>shape = [1, 2], elems = [0, 0 :: real]\<rparr>"
  have L: "LpLoss_init 2 2 = Inr ?L"
    by (simp add: LpLoss_init_def)
  have wx: "wf_tensor ?x" and wy: "wf_tensor ?y"
    by (simp_all add: wf_tensor_def)
  have sh: "shape ?x = shape ?y" "shape ?x = 1 # [2]"
    by simp_all
  have n: "(0 :: nat) < 1" by simp
  have z: "\<forall>v\<in>set (elems ?y). v = 0" by simp
  from LpLoss_rel_division[OF L wx wy sh n] z
  have "LpLoss_rel ?L ?x ?y = Inl NonFinite" by blast
  with L wx wy show ?thesis by simp
qed

section \<open>Properties of patchify and de-patchify\<close>

lemma src_index_perm1:
  "src_index [0, 2, 4, 1, 3, 5] [j0, j1, j2, j3, j4, j5] = [j0, j3, j1, j4, j2, j5]"
  by (simp add: src_index_def)

lemma src_index_perm2:
  "src_index [0, 3, 1, 4, 2, 5] [j0, j1, j2, j3, j4, j5] = [j0, j2, j4, j1, j3, j5]"
  by (simp add: src_index_def)

lemma nth_map_upt0: "i < n \<Longrightarrow> map f [0..<n] ! i = f i"
  by simp

lemma permute_patch_roundtrip:
  fixes t :: "'a tensor"
  assumes len: "length (elems t) = prod_list [B, C, h, p, w, q]"
  shows "map (\<lambda>k. map (\<lambda>k'. elems t ! ravel [B, C, h, p, w, q]
                    (src_index [0, 2, 4, 1, 3, 5] (unravel [B, h, w, C, p, q] k')))
                 [0..<length (elems t)]
               ! ravel [B, h, w, C, p, q]
                    (src_index [0, 3, 1, 4, 2, 5] (unravel [B, C, h, p, w, q] k)))
           [0..<length (elems t)]
         = elems t"
proof -
  let ?s1 = "[B, C, h, p, w, q]" and ?s2 = "[B, h, w, C, p, q]"
  let ?n = "length (elems t)"
  have n2: "?n = prod_list ?s2" using len by (simp add: ac_simps)
  have "map (\<lambda>k'. elems t ! ravel ?s1 (src_index [0, 2, 4, 1, 3, 5] (unravel ?s2 k'))) [0..<?n]
          ! ravel ?s2 (src_index [0, 3, 1, 4, 2, 5] (unravel ?s1 k)) = elems t ! k"
    if k: "k < ?n" for k
  proof -
    from k len have "list_all2 (<) (unravel ?s1 k) ?s1"
      by (intro unravel_bound) simp
    then obtain u0 u1 u2 u3 u4 u5 where u: "unravel ?s1 k = [u0, u1, u2, u3, u4, u5]"
      and b: "u0 < B" "u1 < C" "u2 < h" "u3 < p" "u4 < w" "u5 < q"
      by (auto simp: list_all2_Cons2)
    have s2: "src_index [0, 3, 1, 4, 2, 5] (unravel ?s1 k) = [u0, u2, u4, u1, u3, u5]"
      unfolding u by (rule src_index_perm2)
    have in2: "list_all2 (<) [u0, u2, u4, u1, u3, u5] ?s2"
      using b by simp
    have K: "ravel ?s2 [u0, u2, u4, u1, u3, u5] < ?n"
      unfolding n2 by (rule ravel_bound[OF in2])
    have ur: "unravel ?s2 (ravel ?s2 [u0, u2, u4, u1, u3, u5]) = [u0, u2, u4, u1, u3, u5]"
      by (rule unravel_ravel[OF in2])
    have "ravel ?s1 (src_index [0, 2, 4, 1, 3, 5] [u0, u2, u4, u1, u3, u5]) = ravel ?s1 (unravel ?s1 k)"
      unfolding src_index_perm1 u ..
    also have "\<dots> = k"
      using k len by (intro ravel_unravel) simp
    finally have r: "ravel ?s1 (src_index [0, 2, 4, 1, 3, 5] [u0, u2, u4, u1, u3, u5]) = k" .
    show ?thesis
      unfolding s2 by (simp only: nth_map_upt0[OF K] ur r)
  qed
  then have "map (\<lambda>k. map (\<lambda>k'. elems t ! ravel ?s1 (src_index [0, 2, 4, 1, 3, 5] (unravel ?s2 k')))
                 [0..<?n] ! ravel ?s2 (src_index [0, 3, 1, 4, 2, 5] (unravel ?s1 k))) [0..<?n]
      = map (\<lambda>k. elems t ! k) [0..<?n]"
    by (intro map_cong) simp_all
  also have "\<dots> = elems t" by (rule map_nth)
  finally show ?thesis .
qed

lemma view_nonneg:
  assumes "prod_list ds = length (elems t)"
  shows "view (map int ds) t = Inr (t\<lparr>shape := ds\<rparr>)"
proof -
  have a: "\<not> list_ex (\<lambda>d. d < - 1) (map int ds)"
    by (auto simp: list_ex_iff)
  have b: "filter (\<lambda>d. d = - 1) (map int ds) = []"
    by (auto simp: filter_empty_conv)
  have c: "\<not> list_ex (\<lambda>d. d = - 1) (map int ds)"
    by (auto simp: list_ex_iff)
  have d: "map nat (map int ds) = ds"
    by (simp add: comp_def)
  show ?thesis
    unfolding view_def Let_def using a b c assms by (simp only: d) simp
qed

lemma floordiv_exact:
  assumes "0 < p"
  shows "py_floordiv (int (h * p)) (int p) = Inr (int h)"
  using assms by (simp add: py_floordiv_def flip: of_nat_mult of_nat_div)

lemma permute1_value:
  assumes "shape t = [B, C, h, p, w, q]"
  shows "permute [0, 2, 4, 1, 3, 5] t
     = Inr \<lparr>shape = [B, h, w, C, p, q],
            elems = map (\<lambda>k. elems t ! ravel [B, C, h, p, w, q]
                      (src_index [0, 2, 4, 1, 3, 5] (unravel [B, h, w, C, p, q] k)))
                    [0..<length (elems t)]\<rparr>"
  by (simp add: permute_def assms)

lemma permute2_value:
  assumes "shape t = [B, h, w, C, p, q]"
  shows "permute [0, 3, 1, 4, 2, 5] t
     = Inr \<lparr>shape = [B, C, h, p, w, q],
            elems = map (\<lambda>k. elems t ! ravel [B, h, w, C, p, q]
                      (src_index [0, 3, 1, 4, 2, 5] (unravel [B, C, h, p, w, q] k)))
                    [0..<length (elems t)]\<rparr>"
  by (simp add: permute_def assms)

lemma patchify_value:
  fixes x :: "'a tensor"
  assumes wf: "wf_tensor x" and sh: "shape x = [B, C, h * p, w * q]"
    and ps: "patch_size blk = [int p, int q]" and pos: "0 < p" "0 < q"
  shows "patchify blk x
     = Inr \<lparr>shape = [B * h * w, C, p, q],
            elems = map (\<lambda>k. elems x ! ravel [B, C, h, p, w, q]
                      (src_index [0, 2, 4, 1, 3, 5] (unravel [B, h, w, C, p, q] k)))
                    [0..<length (elems x)]\<rparr>"
proof -
  let ?e2 = "map (\<lambda>k. elems x ! ravel [B, C, h, p, w, q]
                      (src_index [0, 2, 4, 1, 3, 5] (unravel [B, h, w, C, p, q] k)))
                    [0..<length (elems x)]"
  have n: "length (elems x) = B * C * h * p * w * q"
    using wf sh by (simp add: wf_tensor_def ac_simps)
  have v1: "view [int B, int C, int h, int p, int w, int q] x
      = Inr (x\<lparr>shape := [B, C, h, p, w, q]\<rparr>)"
    using view_nonneg[of "[B, C, h, p, w, q]" x] n by (simp add: ac_simps)
  have p1: "permute [0, 2, 4, 1, 3, 5] (x\<lparr>shape := [B, C, h, p, w, q]\<rparr>)
      = Inr \<lparr>shape = [B, h, w, C, p, q], elems = ?e2\<rparr>"
    using permute1_value[of "x\<lparr>shape := [B, C, h, p, w, q]\<rparr>" B C h p w q] by simp
  have v2: "view [int B * int h * int w, int C, int p, int q]
        \<lparr>shape = [B, h, w, C, p, q], elems = ?e2\<rparr>
      = Inr \<lparr>shape = [B * h * w, C, p, q], elems = ?e2\<rparr>"
    using view_nonneg[of "[B * h * w, C, p, q]" "\<lparr>shape = [B, h, w, C, p, q], elems = ?e2\<rparr>"] n
    by (simp add: ac_simps)
  have g: "py_get (shape x) 0 = Inr B" "py_get (shape x) 1 = Inr C"
    "py_get (shape x) 2 = Inr (h * p)" "py_get (shape x) 3 = Inr (w * q)"
    "py_get (patch_size blk) 0 = Inr (int p)" "py_get (patch_size blk) 1 = Inr (int q)"
    by (simp_all add: py_get_def sh ps)
  show ?thesis
    unfolding patchify_def
    by (simp only: g floordiv_exact[OF pos(1)] floordiv_exact[OF pos(2)] ebind_Inr v1 p1 v2)
qed

lemma depatchify_value:
  fixes y :: "'a tensor"
  assumes n: "length (elems y) = B * C * h * p * w * q"
    and ps: "patch_size blk = [int p, int q]" and pos: "0 < p" "0 < q"
  shows "depatchify blk B C (h * p) (w * q) y
     = Inr \<lparr>shape = [B, C, h * p, w * q],
            elems = map (\<lambda>k. elems y ! ravel [B, h, w, C, p, q]
                      (src_index [0, 3, 1, 4, 2, 5] (unravel [B, C, h, p, w, q] k)))
                    [0..<length (elems y)]\<rparr>"
proof -
  let ?e3 = "map (\<lambda>k. elems y ! ravel [B, h, w, C, p, q]
                      (src_index [0, 3, 1, 4, 2, 5] (unravel [B, C, h, p, w, q] k)))
                    [0..<length (elems y)]"
  have v1: "view [int B, int h, int w, int C, int p, int q] y
      = Inr (y\<lparr>shape := [B, h, w, C, p, q]\<rparr>)"
    using view_nonneg[of "[B, h, w, C, p, q]" y] n by (simp add: ac_simps)
  have p2: "permute [0, 3, 1, 4, 2, 5] (y\<lparr>shape := [B, h, w, C, p, q]\<rparr>)
      = Inr \<lparr>shape = [B, C, h, p, w, q], elems = ?e3\<rparr>"
    using permute2_value[of "y\<lparr>shape := [B, h, w, C, p, q]\<rparr>" B h w C p q] by simp
  have v2: "view [int B, int C, int (h * p), int (w * q)]
        \<lparr>shape = [B, C, h, p, w, q], elems = ?e3\<rparr>
      = Inr \<lparr>shape = [B, C, h * p, w * q], elems = ?e3\<rparr>"
    using view_nonneg[of "[B, C, h * p, w * q]" "\<lparr>shape = [B, C, h, p, w, q], elems = ?e3\<rparr>"] n
    by (simp add: ac_simps)
  have g: "py_get (patch_size blk) 0 = Inr (int p)" "py_get (patch_size blk) 1 = Inr (int q)"
    by (simp_all add: py_get_def ps)
  show ?thesis
    unfolding depatchify_def
    by (simp only: g floordiv_exact[OF pos(1)] floordiv_exact[OF pos(2)] ebind_Inr v1 p2 v2)
qed

text \<open>
  Claim C1. For every well-formed feature map of shape (B, C, H, W) and every patch size
  \<open>[p0, p1]\<close> of positive extents with \<open>p0\<close> dividing \<open>H\<close> and \<open>p1\<close> dividing \<open>W\<close>, the
  patchify reshape succeeds, gives \<open>B * (H / p0) * (W / p1)\<close> patches of shape
  (C, p0, p1), and the de-patchify reshape applied to its result returns the feature map
  itself: the same shape and the same elements in the same order. So does \<open>forward\<close>
  when nothing happens between the two reshapes.
\<close>

theorem patchify_depatchify_identity:
  fixes x :: "'a tensor"
  assumes wf: "wf_tensor x" and sh: "shape x = [B, C, H, W]"
    and ps: "patch_size blk = [p0, p1]" and pos: "0 < p0" "0 < p1"
    and dv: "p0 dvd int H" "p1 dvd int W"
  shows "NeuralSpectralBlock2d_forward blk Inr x = Inr x
    \<and> (\<exists>xp. patchify blk x = Inr xp
          \<and> shape xp = [B * (H div nat p0) * (W div nat p1), C, nat p0, nat p1]
          \<and> depatchify blk B C H W xp = Inr x)"
proof -
  define p q where "p = nat p0" and "q = nat p1"
  have pq: "p0 = int p" "p1 = int q" "0 < p" "0 < q"
    using pos by (simp_all add: p_def q_def)
  from dv have "p dvd H" "q dvd W"
    unfolding pq by simp_all
  then obtain h w where hw: "H = h * p" "W = w * q"
    by (auto simp: dvd_def mult.commute)
  have hd: "H div p = h" "W div q = w"
    using pq(3,4) by (simp_all add: hw)
  let ?e2 = "map (\<lambda>k. elems x ! ravel [B, C, h, p, w, q]
                      (src_index [0, 2, 4, 1, 3, 5] (unravel [B, h, w, C, p, q] k)))
                    [0..<length (elems x)]"
  let ?xp = "\<lparr>shape = [B * h * w, C, p, q], elems = ?e2\<rparr>"
  have n: "length (elems x) = prod_list [B, C, h, p, w, q]"
    using wf sh by (simp add: wf_tensor_def hw ac_simps)
  have pv: "patchify blk x = Inr ?xp"
    by (rule patchify_value[OF wf sh[unfolded hw] ps[unfolded pq] pq(3,4)])
  have n2: "length (elems ?xp) = B * C * h * p * w * q"
    using n by (simp add: ac_simps)
  have "depatchify blk B C (h * p) (w * q) ?xp
      = Inr \<lparr>shape = [B, C, h * p, w * q],
             elems = map (\<lambda>k. elems ?xp ! ravel [B, h, w, C, p, q]
                      (src_index [0, 3, 1, 4, 2, 5] (unravel [B, C, h, p, w, q] k)))
                    [0..<length (elems ?xp)]\<rparr>"
    by (rule depatchify_value[OF n2 ps[unfolded pq] pq(3,4)])
  also have "map (\<lambda>k. elems ?xp ! ravel [B, h, w, C, p, q]
                      (src_index [0, 3, 1, 4, 2, 5] (unravel [B, C, h, p, w, q] k)))
                    [0..<length (elems ?xp)] = elems x"
    using permute_patch_roundtrip[OF n] by simp
  also have "\<lparr>shape = [B, C, h * p, w * q], elems = elems x\<rparr> = x"
    using sh by (simp add: tensor_eq_iff hw)
  finally have dp: "depatchify blk B C H W ?xp = Inr x"
    unfolding hw .
  have u4: "unpack4 (shape x) = Inr (B, C, H, W)"
    by (simp add: unpack4_def sh)
  have fw: "NeuralSpectralBlock2d_forward blk Inr x = Inr x"
    unfolding NeuralSpectralBlock2d_forward_def
    by (simp only: u4 ebind_Inr prod.case pv dp)
  have "shape ?xp = [B * (H div nat p0) * (W div nat p1), C, nat p0, nat p1]"
    using hd by (simp add: p_def q_def)
  with fw pv dp show ?thesis by blast
qed

lemma patchify_example:
  "patchify \<lparr>patch_size = [2, 1], width = 8, num_basis = 1, modes_list = [0],
              head = 8, num_token = 4\<rparr> \<lparr>shape = [1, 1, 2, 2], elems = [10, 11, 12, 13 :: int]\<rparr>
     = Inr \<lparr>shape = [2, 1, 2, 1], elems = [10, 12, 11, 13]\<rparr>"
  by (simp add: patchify_def py_get_def py_floordiv_def view_def permute_def src_index_def
      upt_rec[of 0] upt_rec[of 1]  upt_rec[of 2] upt_rec[of 3] upt_rec[of 4] upt_rec[of 5]
      upt_rec[of 6] Let_def)

theorem patchify_depatchify_identity_witness:
  "wf_tensor \<lparr>shape = [1, 1, 2, 2], elems = [10, 11, 12, 13 :: int]\<rparr>
   \<and> (2 :: int) dvd int 2 \<and> (1 :: int) dvd int 2
   \<and> patchify \<lparr>patch_size = [2, 1], width = 8, num_basis = 1, modes_list = [0],
              head = 8, num_token = 4\<rparr> \<lparr>shape = [1, 1, 2, 2], elems = [10, 11, 12, 13 :: int]\<rparr>
       = Inr \<lparr>shape = [2, 1, 2, 1], elems = [10, 12, 11, 13]\<rparr>
   \<and> NeuralSpectralBlock2d_forward \<lparr>patch_size = [2, 1], width = 8, num_basis = 1,
         modes_list = [0], head = 8, num_token = 4\<rparr> Inr
         \<lparr>shape = [1, 1, 2, 2], elems = [10, 11, 12, 13 :: int]\<rparr>
       = Inr \<lparr>shape = [1, 1, 2, 2], elems = [10, 11, 12, 13]\<rparr>"
proof -
  let ?blk = "\<lparr>patch_size = [2, 1], width = 8, num_basis = 1, modes_list = [0],
              head = 8, num_token = 4\<rparr>"
  let ?x = "\<lparr>shape = [1, 1, 2, 2], elems = [10, 11, 12, 13 :: int]\<rparr>"
  have wf: "wf_tensor ?x" by (simp add: wf_tensor_def)
  have sh: "shape ?x = [1, 1, 2, 2]" by simp
  have ps: "patch_size ?blk = [2, 1]" by simp
  have pos: "(0 :: int) < 2" "(0 :: int) < 1" by simp_all
  have dv: "(2 :: int) dvd int 2" "(1 :: int) dvd int 2" by simp_all
  from patchify_depatchify_identity[OF wf sh ps pos dv]
  have "NeuralSpectralBlock2d_forward ?blk Inr ?x = Inr ?x" by blast
  with wf dv patchify_example show ?thesis by blast
qed

section \<open>Properties of the forward pass of LSM\_2D\<close>

lemma ebind_eq_Inr: "ebind m f = Inr v \<longleftrightarrow> (\<exists>u. m = Inr u \<and> f u = Inr v)"
  by (cases m) simp_all

lemma conv3x3_Inr:
  "conv3x3 ci co s = Inr s' \<Longrightarrow> \<exists>B C H W. s = [B, C, H, W] \<and> s' = [B, co, H, W]"
  by (auto simp: conv3x3_def split: list.splits if_splits)

lemma batch_norm_Inr: "batch_norm tr s = Inr s' \<Longrightarrow> s' = s"
  by (auto simp: batch_norm_def split: list.splits if_splits)

lemma DoubleConv_forward_Inr:
  assumes "DoubleConv_forward tr dc s = Inr s'"
  shows "\<exists>B C H W. s = [B, C, H, W] \<and> s' = [B, out_channels dc, H, W]"
proof -
  from assms obtain s1 s2 s3 where
    1: "conv3x3 (in_channels dc) (mid_channels dc) s = Inr s1" and
    2: "batch_norm tr s1 = Inr s2" and
    3: "conv3x3 (mid_channels dc) (out_channels dc) s2 = Inr s3" and
    4: "batch_norm tr s3 = Inr s'"
    unfolding DoubleConv_forward_def ebind_eq_Inr by blast
  from conv3x3_Inr[OF 1] batch_norm_Inr[OF 2] conv3x3_Inr[OF 3] batch_norm_Inr[OF 4]
  show ?thesis by auto
qed

lemma Up_forward_Inr:
  assumes "Up_forward tr dc x1 x2 = Inr s'"
  shows "\<exists>B C H W. x2 = [B, C, H, W] \<and> s' = [B, out_channels dc, H, W]"
proof -
  from assms obtain B1 C1 H1 W1 B2 C2 H2 W2 where
    x: "x1 = [B1, C1, H1, W1]" "x2 = [B2, C2, H2, W2]"
    by (auto simp: Up_forward_def split: list.splits)
  from assms have "DoubleConv_forward tr dc [B2, C2 + C1, H2, W2] = Inr s'"
    unfolding x Up_forward_def Let_def
    by (auto simp: ebind_eq_Inr split: if_splits)
  from DoubleConv_forward_Inr[OF this] x show ?thesis by auto
qed

lemma NeuralSpectralBlock2d_shape_Inr:
  "NeuralSpectralBlock2d_shape blk s = Inr s' \<Longrightarrow> s' = s"
  by (auto simp: NeuralSpectralBlock2d_shape_def ebind_eq_Inr split: list.splits if_splits)

lemma Linear_Inr: "Linear io s = Inr s' \<Longrightarrow> s \<noteq> [] \<and> s' = butlast s @ [snd io]"
  by (auto simp: Linear_def split: if_splits)

lemma lsm_lift_Inr:
  assumes "lsm_lift M [B, H, W, c] = Inr x"
  shows "x = [B, snd (fc0 M), H, W]"
  using assms
  by (auto simp: lsm_lift_def ebind_eq_Inr dest!: Linear_Inr)

lemma lsm_pad_positive:
  assumes "padding M = [pad0, pad1]" "0 < pad0" "0 < pad1"
  shows "lsm_pad M [B, C, H, W] = Inr [B, C, nat (int H + pad1), nat (int W + pad0)]"
  using assms by (simp add: lsm_pad_def py_get_def pad2d_def)

lemma lsm_unet_Inr:
  assumes "lsm_unet M x = Inr y"
  shows "\<exists>B C H W. x = [B, C, H, W] \<and> y = [B, snd (outc M), H, W]"
proof -
  from assms obtain x1 y1 u3 u4 where
    i: "DoubleConv_forward (training M) (inc M) x = Inr x1" and
    p: "NeuralSpectralBlock2d_shape (process1 M) x1 = Inr y1" and
    u: "Up_forward (training M) (up4 M) u3 y1 = Inr u4" and
    c: "(case u4 of
          [b, ch, h, w] \<Rightarrow>
            if ch = fst (outc M) then Inr [b, snd (outc M), h, w] else Inl RuntimeError
        | _ \<Rightarrow> Inl RuntimeError) = Inr y"
    unfolding lsm_unet_def ebind_eq_Inr by blast
  from DoubleConv_forward_Inr[OF i] obtain B C H W where
    x: "x = [B, C, H, W]" and x1: "x1 = [B, out_channels (inc M), H, W]" by blast
  from NeuralSpectralBlock2d_shape_Inr[OF p] have y1: "y1 = x1" .
  from Up_forward_Inr[OF u] have u4: "u4 = [B, out_channels (up4 M), H, W]"
    unfolding y1 x1 by simp
  from c have "y = [B, snd (outc M), H, W]"
    unfolding u4 by (simp split: if_splits)
  with x show ?thesis by blast
qed

lemma lsm_crop_positive:
  assumes "padding M = [pad0, pad1]" "0 < pad0" "0 < pad1"
  shows "lsm_crop M [B, C, nat (int H + pad1), nat (int W + pad0)] = Inr [B, C, H, W]"
  using assms by (simp add: lsm_crop_def py_get_def slice_to_def)

lemma lsm_project_Inr:
  assumes "lsm_project M [B, C, H, W] = Inr s'"
  shows "s' = [B, H, W, snd (fc2 M)]"
  using assms
  by (auto simp: lsm_project_def ebind_eq_Inr dest!: Linear_Inr)

text \<open>
  Where both padding entries are positive, the padding step widens the feature map to
  \<open>(H + p1, W + p0)\<close> and the crop step returns exactly to \<open>(H, W)\<close>: every input of
  shape (batch, H, W, channels) that \<open>forward\<close> accepts yields the shape
  (batch, H, W, out\_dim).
\<close>

lemma LSM_2D_forward_positive_padding:
  assumes fw: "LSM_2D_forward M [B, H, W, c] = Inr s'"
    and pad: "padding M = [pad0, pad1]"
    and pos: "0 < pad0" "0 < pad1"
  shows "s' = [B, H, W, snd (fc2 M)]"
proof -
  from fw obtain xa xb xc xd where
    a: "lsm_lift M [B, H, W, c] = Inr xa" and
    b: "lsm_pad M xa = Inr xb" and
    c: "lsm_unet M xb = Inr xc" and
    d: "lsm_crop M xc = Inr xd" and
    e: "lsm_project M xd = Inr s'"
    unfolding LSM_2D_forward_def ebind_eq_Inr by blast
  have xa: "xa = [B, snd (fc0 M), H, W]" by (rule lsm_lift_Inr[OF a])
  have xb: "xb = [B, snd (fc0 M), nat (int H + pad1), nat (int W + pad0)]"
    using b unfolding xa lsm_pad_positive[OF pad pos] by simp
  from lsm_unet_Inr[OF c] have xc: "xc = [B, snd (outc M), nat (int H + pad1), nat (int W + pad0)]"
    unfolding xb by simp
  have xd: "xd = [B, snd (outc M), H, W]"
    using d unfolding xc lsm_crop_positive[OF pad pos] by simp
  show ?thesis
    by (rule lsm_project_Inr[OF e[unfolded xd]])
qed

text \<open>
  Where one padding entry is 0 and the other is not, both steps still run (the guard is
  \<open>not all(item == 0 ...)\<close>), and the slice \<open>:-0\<close> is the empty slice \<open>:0\<close>.
\<close>

lemma lsm_crop_zero_entry:
  assumes "padding M = [0, pad1]" "0 < pad1"
  shows "lsm_crop M [B, C, H, W] = Inr [B, C, nat (int H - pad1), 0]"
  using assms by (simp add: lsm_crop_def py_get_def slice_to_def)

lemmas lsm_eval_defs =
  LSM_2D_init_def NeuralSpectralBlock2d_init_def DoubleConv_init_def Let_def
  LSM_2D_forward_def lsm_lift_def lsm_pad_def lsm_unet_def lsm_crop_def lsm_project_def
  Linear_def py_get_def pad2d_def DoubleConv_forward_def conv3x3_def batch_norm_def
  Down_forward_def Up_forward_def NeuralSpectralBlock2d_shape_def py_floordiv_def
  slice_to_def

lemma LSM_2D_forward_positive_padding_example:
  "ebind (LSM_2D_init 1 1 8 4 1 [1, 1] [2, 2]) (\<lambda>M. LSM_2D_forward M [2, 14, 14, 1])
     = Inr [2, 14, 14, 1]"
  by (simp add: lsm_eval_defs)

text \<open>
  Claim C7. The claim holds where both padding entries are positive
  (\<open>LSM_2D_forward_positive_padding\<close>), and it fails on the code where the configured
  padding is nonzero with one entry 0: with the padding \<open>[0, 2]\<close> the model accepts an
  input of shape (2, 14, 16, 1), pads it to 16 x 16, and the crop
  \<open>x[..., :-2, :-0]\<close> returns the spatial extent (14, 0), not (14, 16).
\<close>

theorem LSM_2D_forward_zero_padding_entry:
  "ebind (LSM_2D_init 1 1 8 4 1 [1, 1] [0, 2]) (\<lambda>M. LSM_2D_forward M [2, 14, 16, 1])
     = Inr [2, 14, 0, 1]"
  by (simp add: lsm_eval_defs)

end
